theory Spec2Isabelle
  imports Complex_Main "HOL-Library.Word" "HOL-Library.Log_Nat" "HOL-Library.Multiset"
begin

unbundle bit_operations_syntax

section \<open>Python values\<close>

text \<open>
  Python integers are unbounded: \<^typ>\<open>int\<close>. A \<^verbatim>\<open>bytes\<close> object is a list of
  8-bit words. A Python float is an IEEE 754 double, and a finite double is the real
  number it stands for. Where the program turns a float into an integer (the length of
  a variable-length quantity, the time of a control change), the rounding of the
  float operations before is modelled: the conversion of an integer, a division and a
  multiplication give the double nearest to the exact result, a tie going to the even
  significand (\<open>double_of_int\<close>, \<open>round_double\<close>), and a result of magnitude
  \<open>2 ^ 1024\<close> or more is an infinity (\<open>double_overflow\<close>). The logarithm of the C
  library has no such rule: it is a parameter of the functions that use it
  (\<open>math_log\<close>). The argument of \<^verbatim>\<open>sleep\<close>, which the sequencer only passes on, is
  the exact quotient. An exception is a value of \<open>error\<close>.
\<close>

type_synonym byte = "8 word"

datatype error =
    AssertionError
  | ValueError
  | ZeroDivisionError
  | OverflowError
  | StructError
  | BinasciiError

text \<open>\<^verbatim>\<open>bytes(xs)\<close> for a list of integers: ValueError unless each is in range(256).\<close>

definition py_bytes :: "int list \<Rightarrow> error + byte list" where
  "py_bytes xs =
     (if list_all (\<lambda>x. 0 \<le> x \<and> x < 256) xs then Inr (map word_of_int xs)
      else Inl ValueError)"

text \<open>\<^verbatim>\<open>struct.pack("%sB" % len(xs), *xs)\<close>: struct.error unless each is in range(256).\<close>

definition pack_B :: "int list \<Rightarrow> error + byte list" where
  "pack_B xs =
     (if list_all (\<lambda>x. 0 \<le> x \<and> x < 256) xs then Inr (map word_of_int xs)
      else Inl StructError)"

text \<open>\<^verbatim>\<open>int(x)\<close> for a float: truncation towards zero.\<close>

definition py_int :: "real \<Rightarrow> int" where
  "py_int x = (if 0 \<le> x then \<lfloor>x\<rfloor> else \<lceil>x\<rceil>)"

text \<open>\<^verbatim>\<open>round(x)\<close> for a float: the nearest integer, a tie going to the even one.\<close>

definition py_round :: "real \<Rightarrow> int" where
  "py_round x =
     (let f = \<lfloor>x\<rfloor>; d = x - of_int f in
      if d < 1 / 2 then f
      else if 1 / 2 < d then f + 1
      else if even f then f else f + 1)"

text \<open>
  The double nearest to an integer \<open>n\<close> (round to nearest, ties to even, 53 significant
  bits), as \<^verbatim>\<open>math.log\<close> converts an integer argument. For \<open>n \<noteq> 0\<close> it is an
  integer again. (From \<open>2 ^ 1024\<close> on \<^verbatim>\<open>math.log\<close> works from the mantissa, rounded
  in the same way, and the exponent: its result is still a function of this number.)
\<close>

definition double_of_int :: "int \<Rightarrow> int" where
  "double_of_int n =
     (let e = bitlen \<bar>n\<bar> - 53 in
      if e \<le> 0 then n
      else
        let q = \<bar>n\<bar> div 2 ^ nat e;
            r = \<bar>n\<bar> mod 2 ^ nat e;
            half = 2 ^ nat (e - 1);
            q' = (if half < r \<or> (r = half \<and> odd q) then q + 1 else q)
        in sgn n * (q' * 2 ^ nat e))"

text \<open>
  \<^verbatim>\<open>math.log(value, base)\<close> for integers \<open>value \<ge> 1\<close> and \<open>base \<ge> 2\<close>, as the
  encoder calls it: both are converted to doubles, and the result is the quotient, in
  double precision, of the C library's logarithms of the two. How the C library rounds
  a logarithm is not fixed, so the function that takes the two doubles to this
  quotient is a parameter, \<open>flog\<close>. One of its values is fixed by the C standard: the
  logarithm of 1.0 is exactly 0.0, and so is its quotient by the logarithm of the base.
\<close>

type_synonym double_log = "real \<Rightarrow> real \<Rightarrow> real"

definition math_log :: "double_log \<Rightarrow> int \<Rightarrow> int \<Rightarrow> real" where
  "math_log flog x b =
     (let dx = real_of_int (double_of_int x); db = real_of_int (double_of_int b)
      in if dx = 1 then 0 else flog dx db)"

text \<open>
  The double nearest to a real number \<open>x\<close>: with \<open>2 ^ e \<le> \<bar>x\<bar> < 2 ^ (e + 1)\<close>, the
  doubles around \<open>x\<close> are the multiples of \<open>2 ^ (e - 52)\<close> (of \<open>2 ^ - 1074\<close> below the
  normal range), and \<open>x\<close> is rounded to the nearest of them, a tie going to the even
  multiple.
\<close>

definition pow2 :: "int \<Rightarrow> real" where
  "pow2 k = (if 0 \<le> k then 2 ^ nat k else 1 / 2 ^ nat (- k))"

definition double_ulp :: "real \<Rightarrow> real" where
  "double_ulp x = pow2 (max \<lfloor>log 2 \<bar>x\<bar>\<rfloor> (- 1022) - 52)"

definition round_double :: "real \<Rightarrow> real" where
  "round_double x =
     (if x = 0 then 0 else double_ulp x * of_int (py_round (x / double_ulp x)))"

definition double_overflow :: "real \<Rightarrow> bool" where
  "double_overflow y = (2 ^ 1024 \<le> \<bar>y\<bar>)"

text \<open>
  The \<^verbatim>\<open>%x\<close> conversion of a non-negative integer (lower-case hexadecimal digits,
  most significant first) and \<^verbatim>\<open>"%0<w>x" % n\<close>, which pads with zeros to width
  \<open>w\<close>, the sign of a negative number counting towards the width.
\<close>

definition hex_char :: "nat \<Rightarrow> char" where
  "hex_char d = ''0123456789abcdef'' ! d"

fun hex_digits :: "nat \<Rightarrow> string" where
  "hex_digits n =
     (if n < 16 then [hex_char n] else hex_digits (n div 16) @ [hex_char (n mod 16)])"

declare hex_digits.simps [simp del]

text \<open>The \<open>k\<close> low hexadecimal digits of \<open>n\<close>, most significant first.\<close>

definition hex_fixed :: "nat \<Rightarrow> nat \<Rightarrow> string" where
  "hex_fixed k n = map (\<lambda>i. hex_char (n div 16 ^ i mod 16)) (rev [0..<k])"

definition zero_pad :: "nat \<Rightarrow> string \<Rightarrow> string" where
  "zero_pad w s = replicate (w - length s) CHR ''0'' @ s"

definition format_0x :: "nat \<Rightarrow> int \<Rightarrow> string" where
  "format_0x w n =
     (if n < 0 then CHR ''-'' # zero_pad (w - 1) (hex_digits (nat (- n)))
      else zero_pad w (hex_digits (nat n)))"

text \<open>
  \<^verbatim>\<open>binascii.a2b_hex\<close>: two hexadecimal digits (either case) per byte; binascii.Error
  on an odd number of characters or on a character that is no hexadecimal digit.
\<close>

definition hex_value :: "char \<Rightarrow> int option" where
  "hex_value c =
     map_of (zip ''0123456789abcdef'' [0, 1, 2, 3, 4, 5, 6, 7, 8, 9, 10, 11, 12, 13, 14, 15]
           @ zip ''ABCDEF'' [10, 11, 12, 13, 14, 15]) c"

fun a2b_hex :: "string \<Rightarrow> error + byte list" where
  "a2b_hex [] = Inr []"
| "a2b_hex [c] = Inl BinasciiError"
| "a2b_hex (c1 # c2 # cs) =
     (case (hex_value c1, hex_value c2) of
        (Some h, Some l) \<Rightarrow>
          (case a2b_hex cs of
             Inl e \<Rightarrow> Inl e
           | Inr bs \<Rightarrow> Inr (word_of_int (h * 16 + l) # bs))
      | _ \<Rightarrow> Inl BinasciiError)"

text \<open>
  \<^verbatim>\<open>str(n)\<close> for an integer (the decimal digits, a minus sign first for a negative
  number), which is how a JSON encoder writes an integer dictionary key, and
  \<^verbatim>\<open>int(s)\<close> for a string, on signed decimal numerals: ValueError on anything else
  (the blanks and underscores \<^verbatim>\<open>int\<close> also accepts are left out: no key written by
  \<^verbatim>\<open>str\<close> has them).
\<close>

definition dec_char :: "nat \<Rightarrow> char" where
  "dec_char d = ''0123456789'' ! d"

fun dec_digits :: "nat \<Rightarrow> string" where
  "dec_digits n =
     (if n < 10 then [dec_char n] else dec_digits (n div 10) @ [dec_char (n mod 10)])"

declare dec_digits.simps [simp del]

definition py_str :: "int \<Rightarrow> string" where
  "py_str n = (if n < 0 then CHR ''-'' # dec_digits (nat (- n)) else dec_digits (nat n))"

definition dec_value :: "char \<Rightarrow> nat option" where
  "dec_value c = map_of (zip ''0123456789'' [0, 1, 2, 3, 4, 5, 6, 7, 8, 9]) c"

fun parse_digits :: "nat \<Rightarrow> string \<Rightarrow> nat option" where
  "parse_digits acc [] = Some acc"
| "parse_digits acc (c # cs) =
     (case dec_value c of None \<Rightarrow> None | Some d \<Rightarrow> parse_digits (acc * 10 + d) cs)"

definition parse_unsigned :: "string \<Rightarrow> nat option" where
  "parse_unsigned s = (if s = [] then None else parse_digits 0 s)"

definition py_int_of_str :: "string \<Rightarrow> error + int" where
  "py_int_of_str s =
     (case s of
        [] \<Rightarrow> Inl ValueError
      | c # cs \<Rightarrow>
          if c = CHR ''-'' then
            (case parse_unsigned cs of None \<Rightarrow> Inl ValueError | Some n \<Rightarrow> Inr (- int n))
          else if c = CHR ''+'' then
            (case parse_unsigned cs of None \<Rightarrow> Inl ValueError | Some n \<Rightarrow> Inr (int n))
          else
            (case parse_unsigned s of None \<Rightarrow> Inl ValueError | Some n \<Rightarrow> Inr (int n)))"

text \<open>
  A Python \<^verbatim>\<open>dict\<close> is an association list in insertion order whose keys are
  distinct (\<open>dict_ok\<close>). \<open>dict_setitem\<close> is \<^verbatim>\<open>d[k] = v\<close>;
  \<open>setdefault_append\<close> is \<^verbatim>\<open>d.setdefault(k, []).append(x)\<close>.
\<close>

definition dict_ok :: "('k \<times> 'v) list \<Rightarrow> bool" where
  "dict_ok d = distinct (map fst d)"

fun dict_setitem :: "('k \<times> 'v) list \<Rightarrow> 'k \<Rightarrow> 'v \<Rightarrow> ('k \<times> 'v) list" where
  "dict_setitem [] k v = [(k, v)]"
| "dict_setitem ((k', v') # d) k v =
     (if k' = k then (k', v) # d else (k', v') # dict_setitem d k v)"

fun setdefault_append :: "('k \<times> 'v list) list \<Rightarrow> 'k \<Rightarrow> 'v \<Rightarrow> ('k \<times> 'v list) list" where
  "setdefault_append [] k x = [(k, [x])]"
| "setdefault_append ((k', xs) # d) k x =
     (if k' = k then (k', xs @ [x]) # d else (k', xs) # setdefault_append d k x)"

section \<open>The MIDI byte encoder (mingus/midi/midi\_track.py)\<close>

subsection \<open>Variable-length quantities\<close>

text \<open>
  \<^verbatim>\<open>MidiTrack.int_to_varbyte\<close>. The number of groups is
  \<^verbatim>\<open>int(log(max(value, 1), 0x80)) + 1\<close>; the groups are read off the value seven
  bits at a time, reversed, and every group but the last gets its high bit.
\<close>

definition varbyte_length :: "double_log \<Rightarrow> int \<Rightarrow> int" where
  "varbyte_length flog v = py_int (math_log flog (max v 1) 0x80) + 1"

definition set_continuation :: "int list \<Rightarrow> int list" where
  "set_continuation bytes =
     fold (\<lambda>i bs. bs[i := (bs ! i) OR 0x80]) [0..<length bytes - 1] bytes"

definition int_to_varbyte :: "double_log \<Rightarrow> int \<Rightarrow> error + byte list" where
  "int_to_varbyte flog v =
     (let len = varbyte_length flog v;
          bytes = map (\<lambda>i. drop_bit (i * 7) v AND 0x7F) [0..<nat len];
          bytes = rev bytes;
          bytes = set_continuation bytes
      in pack_B bytes)"

text \<open>
  The reader of a variable-length quantity, as the format is described: groups of seven
  bits, the most significant group first, the high bit \<open>0x80\<close> set on every byte but the
  last. It returns the value and the bytes after the quantity, and \<open>None\<close> when the
  bytes end before a byte without the high bit.
\<close>

fun vlq_decode_from :: "int \<Rightarrow> byte list \<Rightarrow> (int \<times> byte list) option" where
  "vlq_decode_from acc [] = None"
| "vlq_decode_from acc (b # bs) =
     (let acc' = acc * 128 + uint (b AND 0x7F) in
      if b AND 0x80 = 0 then Some (acc', bs) else vlq_decode_from acc' bs)"

definition vlq_decode :: "byte list \<Rightarrow> (int \<times> byte list) option" where
  "vlq_decode bs = vlq_decode_from 0 bs"

text \<open>
  The groups of \<open>v\<close> for a given number \<open>n\<close> of groups, most significant first, before
  the continuation bits are set (the list \<^verbatim>\<open>bytes\<close> after \<^verbatim>\<open>bytes.reverse()\<close>).
\<close>

definition be_groups :: "nat \<Rightarrow> int \<Rightarrow> int list" where
  "be_groups n v = rev (map (\<lambda>i. drop_bit (i * 7) v AND 0x7F) [0..<n])"

subsection \<open>Events\<close>

text \<open>
  The constants of \<^verbatim>\<open>mingus.midi.midi_events\<close> (imported with \<^verbatim>\<open>*\<close>; the module
  is not among the sources) are a parameter of the encoder: the event-type nibbles are
  integers, the meta-event prefix and the meta-event types are byte strings.
  \<open>standard_midi_events\<close> holds the values of the Standard MIDI File format, for the
  examples.
\<close>

record midi_events =
  NOTE_OFF :: int
  NOTE_ON :: int
  CONTROLLER :: int
  PROGRAM_CHANGE :: int
  BANK_SELECT :: int
  META_EVENT :: "byte list"
  SET_TEMPO :: "byte list"

definition standard_midi_events :: midi_events where
  "standard_midi_events =
     \<lparr>NOTE_OFF = 0x8, NOTE_ON = 0x9, CONTROLLER = 0xB, PROGRAM_CHANGE = 0xC,
      BANK_SELECT = 0x00, META_EVENT = [0xFF], SET_TEMPO = [0x51]\<rparr>"

text \<open>
  A note as the encoder and the sequencer read it: \<open>note_int\<close> is \<^verbatim>\<open>int(note)\<close>
  (\<^verbatim>\<open>Note.__int__\<close>: twelve times the octave plus the pitch class, which
  \<^verbatim>\<open>mingus.core.notes\<close> computes; \<^verbatim>\<open>PercussionNote.__int__\<close>: the key
  number), \<open>is_percussion\<close> tells a \<^verbatim>\<open>PercussionNote\<close>. The channel is an integer;
  a note whose channel was never set (\<^verbatim>\<open>None\<close>) is outside the model.
\<close>

record Note =
  note_int :: int
  channel :: int
  velocity :: int
  is_percussion :: bool

record MidiTrack =
  track_data :: "byte list"
  delta_time :: "byte list"
  delay :: int
  bpm :: int
  change_instrument :: bool
  instrument :: int

text \<open>
  A method that changes the encoder returns the exception it raised, if any, and the
  encoder as the call left it (the object is changed in place, so what was written before
  a raise stays written).
\<close>

type_synonym 's outcome = "error option \<times> 's"

text \<open>\<^verbatim>\<open>midi_event(event_type, channel, param1, param2=None)\<close>.\<close>

definition midi_event :: "MidiTrack \<Rightarrow> int \<Rightarrow> int \<Rightarrow> int \<Rightarrow> int option \<Rightarrow> error + byte list" where
  "midi_event self event_type chan param1 param2 =
     (if \<not> (0 \<le> event_type \<and> event_type < 16) then Inl AssertionError
      else if \<not> (0 \<le> chan \<and> chan < 16) then Inl AssertionError
      else if \<not> (0 \<le> param1 \<and> param1 \<le> 0x7F) then Inl AssertionError
      else if \<not> (case param2 of None \<Rightarrow> True | Some p2 \<Rightarrow> 0 \<le> p2 \<and> p2 \<le> 0x7F)
        then Inl AssertionError
      else
        let status_byte = chan OR push_bit 4 event_type;
            params = [param1] @ (case param2 of None \<Rightarrow> [] | Some p2 \<Rightarrow> [p2])
        in case py_bytes ([status_byte] @ params) of
             Inl e \<Rightarrow> Inl e
           | Inr bs \<Rightarrow> Inr (delta_time self @ bs))"

definition note_off :: "midi_events \<Rightarrow> MidiTrack \<Rightarrow> int \<Rightarrow> int \<Rightarrow> int \<Rightarrow> error + byte list" where
  "note_off K self chan n vel = midi_event self (NOTE_OFF K) chan n (Some vel)"

definition note_on :: "midi_events \<Rightarrow> MidiTrack \<Rightarrow> int \<Rightarrow> int \<Rightarrow> int \<Rightarrow> error + byte list" where
  "note_on K self chan n vel = midi_event self (NOTE_ON K) chan n (Some vel)"

definition controller_event ::
  "midi_events \<Rightarrow> MidiTrack \<Rightarrow> int \<Rightarrow> int \<Rightarrow> int \<Rightarrow> error + byte list" where
  "controller_event K self chan contr_nr contr_val =
     midi_event self (CONTROLLER K) chan contr_nr (Some contr_val)"

text \<open>
  \<^verbatim>\<open>select_bank(channel, bank)\<close> returns
  \<^verbatim>\<open>self.controller_event(BANK_SELECT, channel, bank)\<close>: the arguments are passed in
  this order, so \<^verbatim>\<open>BANK_SELECT\<close> stands where \<^verbatim>\<open>controller_event\<close> expects the
  channel.
\<close>

definition select_bank :: "midi_events \<Rightarrow> MidiTrack \<Rightarrow> int \<Rightarrow> int \<Rightarrow> error + byte list" where
  "select_bank K self chan bnk = controller_event K self (BANK_SELECT K) chan bnk"

definition program_change_event ::
  "midi_events \<Rightarrow> MidiTrack \<Rightarrow> int \<Rightarrow> int \<Rightarrow> error + byte list" where
  "program_change_event K self chan instr = midi_event self (PROGRAM_CHANGE K) chan instr None"

text \<open>\<^verbatim>\<open>self.track_data += <bytes>\<close>, where computing the bytes may raise.\<close>

definition append_event :: "MidiTrack \<Rightarrow> error + byte list \<Rightarrow> MidiTrack outcome" where
  "append_event self r =
     (case r of
        Inl e \<Rightarrow> (Some e, self)
      | Inr bs \<Rightarrow> (None, self\<lparr>track_data := track_data self @ bs\<rparr>))"

definition set_instrument ::
  "midi_events \<Rightarrow> MidiTrack \<Rightarrow> int \<Rightarrow> int \<Rightarrow> int \<Rightarrow> MidiTrack outcome" where
  "set_instrument K self chan instr bnk =
     (case append_event self (select_bank K self chan bnk) of
        (Some e, self1) \<Rightarrow> (Some e, self1)
      | (None, self1) \<Rightarrow> append_event self1 (program_change_event K self1 chan instr))"

text \<open>
  \<^verbatim>\<open>set_deltatime(delta_time)\<close> takes an integer, which it converts with
  \<^verbatim>\<open>int_to_varbyte\<close>, or a variable-length byte string.
\<close>

datatype delta_arg = DeltaInt int | DeltaBytes "byte list"

definition set_deltatime :: "double_log \<Rightarrow> MidiTrack \<Rightarrow> delta_arg \<Rightarrow> MidiTrack outcome" where
  "set_deltatime flog self d =
     (case d of
        DeltaInt i \<Rightarrow>
          (case int_to_varbyte flog i of
             Inl e \<Rightarrow> (Some e, self)
           | Inr bs \<Rightarrow> (None, self\<lparr>delta_time := bs\<rparr>))
      | DeltaBytes bs \<Rightarrow> (None, self\<lparr>delta_time := bs\<rparr>))"

text \<open>
  The pending instrument change at the start of \<^verbatim>\<open>play_Note\<close>
  (\<^verbatim>\<open>if self.change_instrument: self.set_instrument(channel, self.instrument);
  self.change_instrument = False\<close>).
\<close>

definition apply_instrument_change :: "midi_events \<Rightarrow> MidiTrack \<Rightarrow> int \<Rightarrow> MidiTrack outcome" where
  "apply_instrument_change K self chan =
     (if change_instrument self then
        (case set_instrument K self chan (instrument self) 1 of
           (Some e, self1) \<Rightarrow> (Some e, self1)
         | (None, self1) \<Rightarrow> (None, self1\<lparr>change_instrument := False\<rparr>))
      else (None, self))"

definition play_Note :: "midi_events \<Rightarrow> MidiTrack \<Rightarrow> Note \<Rightarrow> MidiTrack outcome" where
  "play_Note K self n =
     (let chan = channel n; vel = velocity n in
      case apply_instrument_change K self chan of
        (Some e, self1) \<Rightarrow> (Some e, self1)
      | (None, self1) \<Rightarrow>
          if \<not> (0 \<le> vel \<and> vel \<le> 0x7F) then (Some AssertionError, self1)
          else append_event self1 (note_on K self1 chan (note_int n + 12) vel))"

definition stop_Note :: "midi_events \<Rightarrow> MidiTrack \<Rightarrow> Note \<Rightarrow> MidiTrack outcome" where
  "stop_Note K self n =
     (let chan = channel n; vel = velocity n in
      append_event self (note_off K self chan (note_int n + 12) vel))"

text \<open>
  The list comprehensions \<^verbatim>\<open>[self.play_Note(x) for x in ...]\<close> and
  \<^verbatim>\<open>[self.stop_Note(x) for x in ...]\<close>: one call after the other, stopping at the
  first exception.
\<close>

fun for_each :: "('s \<Rightarrow> 'a \<Rightarrow> 's outcome) \<Rightarrow> 's \<Rightarrow> 'a list \<Rightarrow> 's outcome" where
  "for_each f self [] = (None, self)"
| "for_each f self (x # xs) =
     (case f self x of
        (Some e, self1) \<Rightarrow> (Some e, self1)
      | (None, self1) \<Rightarrow> for_each f self1 xs)"

definition play_NoteContainer ::
  "midi_events \<Rightarrow> double_log \<Rightarrow> MidiTrack \<Rightarrow> Note list \<Rightarrow> MidiTrack outcome" where
  "play_NoteContainer K flog self notecontainer =
     (if length notecontainer \<le> 1 then for_each (play_Note K) self notecontainer
      else
        case play_Note K self (notecontainer ! 0) of
          (Some e, self1) \<Rightarrow> (Some e, self1)
        | (None, self1) \<Rightarrow>
            (case set_deltatime flog self1 (DeltaInt 0) of
               (Some e, self2) \<Rightarrow> (Some e, self2)
             | (None, self2) \<Rightarrow> for_each (play_Note K) self2 (drop 1 notecontainer)))"

definition stop_NoteContainer ::
  "midi_events \<Rightarrow> double_log \<Rightarrow> MidiTrack \<Rightarrow> Note list \<Rightarrow> MidiTrack outcome" where
  "stop_NoteContainer K flog self notecontainer =
     (if length notecontainer \<le> 1 then for_each (stop_Note K) self notecontainer
      else
        case stop_Note K self (notecontainer ! 0) of
          (Some e, self1) \<Rightarrow> (Some e, self1)
        | (None, self1) \<Rightarrow>
            (case set_deltatime flog self1 (DeltaInt 0) of
               (Some e, self2) \<Rightarrow> (Some e, self2)
             | (None, self2) \<Rightarrow> for_each (stop_Note K) self2 (drop 1 notecontainer)))"

text \<open>
  \<^verbatim>\<open>set_tempo_event(bpm)\<close> for an integer \<open>bpm\<close>:
  \<^verbatim>\<open>a2b_hex("%06x" % (60000000 // bpm))\<close> after the delta time, the meta-event
  prefix, the tempo type and the length byte 3.
\<close>

definition set_tempo_event :: "midi_events \<Rightarrow> MidiTrack \<Rightarrow> int \<Rightarrow> error + byte list" where
  "set_tempo_event K self b =
     (let ms_per_min = 60000000 in
      if b = 0 then Inl ZeroDivisionError
      else
        case a2b_hex (format_0x 6 (ms_per_min div b)) of
          Inl e \<Rightarrow> Inl e
        | Inr mpqn \<Rightarrow> Inr (delta_time self @ META_EVENT K @ SET_TEMPO K @ [0x03] @ mpqn))"

definition set_tempo :: "midi_events \<Rightarrow> MidiTrack \<Rightarrow> int \<Rightarrow> MidiTrack outcome" where
  "set_tempo K self b =
     (let self1 = self\<lparr>bpm := b\<rparr> in append_event self1 (set_tempo_event K self1 (bpm self1)))"

text \<open>
  The three bytes of a note event after its delta time, and the range the encoder's
  assertions require of a note (both are used to state the theorems; they are not
  functions of the source). \<open>be_value\<close> reads bytes as a big-endian number.
\<close>

definition note_event_bytes :: "int \<Rightarrow> Note \<Rightarrow> byte list" where
  "note_event_bytes event_type n =
     map word_of_int [channel n OR push_bit 4 event_type, note_int n + 12, velocity n]"

definition valid_note :: "Note \<Rightarrow> bool" where
  "valid_note n =
     (0 \<le> channel n \<and> channel n < 16 \<and> 0 \<le> note_int n + 12 \<and> note_int n + 12 \<le> 127
      \<and> 0 \<le> velocity n \<and> velocity n \<le> 127)"

definition nibble :: "int \<Rightarrow> bool" where
  "nibble x = (0 \<le> x \<and> x < 16)"

definition be_value :: "byte list \<Rightarrow> int" where
  "be_value bs = foldl (\<lambda>acc b. acc * 256 + uint b) 0 bs"

text \<open>The \<open>k\<close> low bytes of \<open>n\<close>, most significant first.\<close>

definition be_bytes :: "nat \<Rightarrow> nat \<Rightarrow> byte list" where
  "be_bytes k n = map (\<lambda>i. word_of_int (int (n div 256 ^ i mod 256))) (rev [0..<k])"

text \<open>
  An encoder with nothing written and the delta time 00, a note on channel 0, and the
  exact logarithm as the logarithm of the examples.
\<close>

definition example_log :: double_log where
  "example_log x b = log b x"

definition example_track :: MidiTrack where
  "example_track =
     \<lparr>track_data = [], delta_time = [0x00], delay = 0, bpm = 120,
      change_instrument = False, instrument = 1\<rparr>"

definition example_note :: "int \<Rightarrow> int \<Rightarrow> Note" where
  "example_note p v = \<lparr>note_int = p, channel = 0, velocity = v, is_percussion = False\<rparr>"

section \<open>The sequencer (mingus/midi/sequencer2.py, mingus/containers/track.py)\<close>

subsection \<open>Events and the score\<close>

datatype MidiControl = VIBRATO | VOLUME | PAN | EXPRESSION | SUSTAIN | REVERB | CHORUS

text \<open>The \<^verbatim>\<open>.value\<close> of a member of the enumeration.\<close>

fun control_value :: "MidiControl \<Rightarrow> int" where
  "control_value VIBRATO = 1"
| "control_value VOLUME = 7"
| "control_value PAN = 10"
| "control_value EXPRESSION = 11"
| "control_value SUSTAIN = 64"
| "control_value REVERB = 91"
| "control_value CHORUS = 93"

text \<open>
  An entry of the score is a dictionary with a key \<^verbatim>\<open>'func'\<close>; \<^verbatim>\<open>play_score\<close>
  reads \<^verbatim>\<open>'note'\<close>, \<^verbatim>\<open>'channel'\<close> and \<^verbatim>\<open>'velocity'\<close> of a
  \<^verbatim>\<open>'start_note'\<close>, \<^verbatim>\<open>'note'\<close> and \<^verbatim>\<open>'channel'\<close> of an \<^verbatim>\<open>'end_note'\<close>,
  \<^verbatim>\<open>'channel'\<close>, \<^verbatim>\<open>'control'\<close> and \<^verbatim>\<open>'value'\<close> of a
  \<^verbatim>\<open>'control_change'\<close>, and skips every other \<^verbatim>\<open>'func'\<close>.
\<close>

datatype event =
    Start_note Note int int
  | End_note Note int
  | Control_change_event int MidiControl int
  | Other_func string

type_synonym score_dict = "(int \<times> event list) list"

record ControlChangeEvent =
  beat :: real
  control :: MidiControl
  cc_value :: int

text \<open>
  \<^verbatim>\<open>ControlChangeEvent.put_into_score(score, channel, bpm)\<close>. The time in
  milliseconds is \<^verbatim>\<open>round((self.beat / bpm) * 60000.0)\<close> for doubles
  \<^verbatim>\<open>self.beat\<close> and \<^verbatim>\<open>bpm\<close>: the division raises for \<^verbatim>\<open>bpm\<close> zero,
  quotient and product are rounded to doubles, and \<^verbatim>\<open>round\<close> raises OverflowError
  on an infinity. The entry is appended to the list at that key, which
  \<^verbatim>\<open>setdefault\<close> creates when the key is new.
\<close>

definition time_in_ms :: "real \<Rightarrow> real \<Rightarrow> error + int" where
  "time_in_ms bt b =
     (if b = 0 then Inl ZeroDivisionError
      else
        let q = round_double (bt / b) in
        if double_overflow q then Inl OverflowError
        else
          let p = round_double (q * 60000) in
          if double_overflow p then Inl OverflowError else Inr (py_round p))"

definition put_into_score ::
  "ControlChangeEvent \<Rightarrow> score_dict \<Rightarrow> int \<Rightarrow> real \<Rightarrow> error + score_dict" where
  "put_into_score self sc chan b =
     (case time_in_ms (beat self) b of
        Inl e \<Rightarrow> Inl e
      | Inr t \<Rightarrow>
          Inr (setdefault_append sc t (Control_change_event chan (control self) (cc_value self))))"

text \<open>
  The instrument of a track, of which \<^verbatim>\<open>play_score\<close> reads \<^verbatim>\<open>.number\<close> and
  \<^verbatim>\<open>.bank\<close> (the class is not among the sources).
\<close>

record midi_instrument =
  number :: int
  bank :: int

record Sequencer =
  score :: score_dict
  instruments :: "(int \<times> midi_instrument) list"

subsection \<open>Playback\<close>

text \<open>
  The synthesizer is the list of the calls it received, in order. \<^verbatim>\<open>sleep\<close> takes
  seconds.
\<close>

datatype sink_call =
    Call_set_instrument int int int
  | Call_sleep real
  | Call_play_note Note int int
  | Call_stop_note Note int
  | Call_play_percussion_note Note int int
  | Call_stop_percussion_note Note int
  | Call_control_change int int int

text \<open>\<^verbatim>\<open>sortedcontainers.SortedDict(d)\<close>: the items of \<open>d\<close> in ascending order of key.\<close>

definition SortedDict :: "(int \<times> 'v) list \<Rightarrow> (int \<times> 'v) list" where
  "SortedDict d = sort_key fst d"

text \<open>The body of \<^verbatim>\<open>for event in events\<close>: the call one event makes.\<close>

fun play_event :: "event \<Rightarrow> sink_call list" where
  "play_event (Start_note n chan vel) =
     (if is_percussion n then [Call_play_percussion_note n chan vel]
      else [Call_play_note n chan vel])"
| "play_event (End_note n chan) =
     (if is_percussion n then [Call_stop_percussion_note n chan]
      else [Call_stop_note n chan])"
| "play_event (Control_change_event chan ctl val) =
     [Call_control_change chan (control_value ctl) val]"
| "play_event (Other_func f) = []"

text \<open>
  The state of a call of \<^verbatim>\<open>play_score\<close>: the sequencer itself, the synthesizer, the
  cursor \<^verbatim>\<open>the_time\<close>, and the number of iterations of the loop begun so far, which
  is how often \<^verbatim>\<open>stop_func\<close>, when there is one, has been called. The cancellation
  predicate is optional; its answer may differ from one call to the next, so it is a
  function of the number of earlier calls.
\<close>

record play_state =
  self_seq :: Sequencer
  synth :: "sink_call list"
  the_time :: int
  polled :: nat

definition stop_now :: "(nat \<Rightarrow> bool) option \<Rightarrow> nat \<Rightarrow> bool" where
  "stop_now stop_func k = (case stop_func of None \<Rightarrow> False | Some f \<Rightarrow> f k)"

definition call :: "sink_call \<Rightarrow> play_state \<Rightarrow> play_state" where
  "call c st = st\<lparr>synth := synth st @ [c]\<rparr>"

text \<open>
  The loop \<^verbatim>\<open>for start_time, events in score.items()\<close>; \<^verbatim>\<open>break\<close> leaves it
  with the state as it is.
\<close>

fun play_buckets ::
  "(nat \<Rightarrow> bool) option \<Rightarrow> (int \<times> event list) list \<Rightarrow> play_state \<Rightarrow> play_state" where
  "play_buckets stop_func [] st = st"
| "play_buckets stop_func ((start_time, events) # rest) st =
     (if stop_now stop_func (polled st) then st
      else
        let st = st\<lparr>polled := polled st + 1\<rparr>;
            dt = start_time - the_time st;
            st = (if 0 < dt then call (Call_sleep (real_of_int dt / 1000)) st else st);
            st = st\<lparr>the_time := start_time\<rparr>;
            st = fold (\<lambda>event st. fold call (play_event event) st) events st
        in play_buckets stop_func rest st)"

definition play_score ::
  "Sequencer \<Rightarrow> sink_call list \<Rightarrow> (nat \<Rightarrow> bool) option \<Rightarrow> play_state" where
  "play_score self synth0 stop_func =
     (let sc = SortedDict (score self);
          st = \<lparr>self_seq = self, synth = synth0, the_time = 0, polled = 0\<rparr>;
          st = fold (\<lambda>(chan, ins) st. call (Call_set_instrument chan (number ins) (bank ins)) st)
                 (instruments self) st;
          st = play_buckets stop_func sc st
      in call (Call_sleep 2) st)"

text \<open>
  The playback protocol in the words of its description, for comparison with the loop:
  the wait before a timestamp is the timestamp minus the cursor, which is the previous
  timestamp (0 before the first); a bucket is a sleep of that many milliseconds if the
  wait is positive, then the calls of its events in order.
\<close>

definition spec_waits :: "int list \<Rightarrow> int list" where
  "spec_waits ts = map2 (\<lambda>t cursor. t - cursor) ts (0 # ts)"

definition spec_bucket :: "int \<Rightarrow> event list \<Rightarrow> sink_call list" where
  "spec_bucket wait events =
     (if 0 < wait then [Call_sleep (real_of_int wait / 1000)] else [])
       @ concat (map play_event events)"

definition spec_timeline :: "(int \<times> event list) list \<Rightarrow> sink_call list" where
  "spec_timeline items =
     concat (map2 spec_bucket (spec_waits (map fst items)) (map snd items))"

definition spec_setup :: "(int \<times> midi_instrument) list \<Rightarrow> sink_call list" where
  "spec_setup ins = map (\<lambda>(chan, i). Call_set_instrument chan (number i) (bank i)) ins"

text \<open>The same from a given cursor, and a sequencer for the examples.\<close>

definition timeline_from :: "int \<Rightarrow> (int \<times> event list) list \<Rightarrow> sink_call list" where
  "timeline_from cursor items =
     concat (map2 spec_bucket (map2 (\<lambda>t c. t - c) (map fst items) (cursor # map fst items))
       (map snd items))"

definition example_sequencer :: Sequencer where
  "example_sequencer =
     \<lparr>score =
        [(500, [End_note (example_note 48 64) 1]),
         (0, [Start_note (example_note 48 64) 1 64]),
         (1000, [Control_change_event 1 VOLUME 100])],
      instruments = [(1, \<lparr>number = 5, bank = 0\<rparr>)]\<rparr>"

subsection \<open>Persistence\<close>

text \<open>
  Modelled from the spec: \<^verbatim>\<open>mingus_json.dump\<close> and \<^verbatim>\<open>mingus_json.load\<close>
  (mingus/tools/mingus\_json.py is not among the sources). The document is keyed by
  string-encoded timestamps, since a structured document has no integer keys, and is
  lossless for the instrument list and for every event: \<open>mingus_json_dump\<close> writes each
  key as \<^verbatim>\<open>str\<close> gives it and keeps the values, \<open>mingus_json_load\<close> returns the
  document.
\<close>

record snapshot =
  snap_instruments :: "(int \<times> midi_instrument) list"
  snap_score :: "(string \<times> event list) list"

definition mingus_json_dump :: "(int \<times> midi_instrument) list \<Rightarrow> score_dict \<Rightarrow> snapshot" where
  "mingus_json_dump ins sc =
     \<lparr>snap_instruments = ins, snap_score = map (\<lambda>(k, v). (py_str k, v)) sc\<rparr>"

definition mingus_json_load :: "snapshot \<Rightarrow> snapshot" where
  "mingus_json_load doc = doc"

text \<open>
  \<^verbatim>\<open>save_tracks\<close> after its call of \<^verbatim>\<open>play_Tracks\<close>, which builds the score
  from the tracks (through \<^verbatim>\<open>Bar.play\<close>, not among the sources): what is written
  to the file for a sequencer in the state \<open>self\<close>.
\<close>

definition save_tracks :: "Sequencer \<Rightarrow> snapshot" where
  "save_tracks self = (let sc = SortedDict (score self) in mingus_json_dump (instruments self) sc)"

text \<open>The dictionary comprehension \<^verbatim>\<open>{int(k): v for k, v in data['score'].items()}\<close>.\<close>

fun int_keys :: "(string \<times> 'v) list \<Rightarrow> (int \<times> 'v) list \<Rightarrow> error + (int \<times> 'v) list" where
  "int_keys [] d = Inr d"
| "int_keys ((k, v) # rest) d =
     (case py_int_of_str k of
        Inl e \<Rightarrow> Inl e
      | Inr i \<Rightarrow> int_keys rest (dict_setitem d i v))"

definition load_tracks :: "Sequencer \<Rightarrow> snapshot \<Rightarrow> Sequencer outcome" where
  "load_tracks self doc =
     (let data = mingus_json_load doc;
          self = self\<lparr>instruments := snap_instruments data\<rparr>
      in case int_keys (snap_score data) [] of
           Inl e \<Rightarrow> (Some e, self)
         | Inr sc \<Rightarrow> (None, self\<lparr>score := sc\<rparr>))"

section \<open>Properties of the byte encoder\<close>

subsection \<open>Bits of integers and bytes\<close>

lemma mask_7: "(0x7F::int) = mask 7"
  by (simp add: mask_eq_exp_minus_1)

lemma and_7F_mod: "(x::int) AND 0x7F = x mod 128"
  unfolding mask_7 by (simp flip: take_bit_eq_mask add: take_bit_eq_mod)

lemma and_80_zero_iff: "0 \<le> k \<Longrightarrow> k < 256 \<Longrightarrow> (k AND 0x80 = 0) = (k < (128::int))"
proof -
  assume k: "0 \<le> k" "k < 256"
  have "(k AND 2 ^ 7 = 0) = (\<not> bit k 7)" by (rule and_exp_eq_0_iff_not_bit)
  also have "\<dots> = even (k div 2 ^ 7)" by (simp add: bit_iff_odd)
  also have "\<dots> = (k < 128)"
  proof (cases "k < 128")
    case True
    with k show ?thesis by simp
  next
    case False
    with k have "k div 2 ^ 7 = 1" by simp
    with False show ?thesis by simp
  qed
  finally show ?thesis by simp
qed

lemma or_80_add: "0 \<le> g \<Longrightarrow> g < 128 \<Longrightarrow> (g::int) OR 0x80 = g + 128"
proof -
  assume g: "0 \<le> g" "g < 128"
  have "g AND 0x80 = 0" using g and_80_zero_iff [of g] by simp
  then show ?thesis by (simp add: disjunctive_add_eq_or)
qed

lemma uint_byte_of_int: "0 \<le> k \<Longrightarrow> k < 256 \<Longrightarrow> uint (word_of_int k :: byte) = k"
  by (simp add: uint_word_of_int)

lemma byte_payload: "uint ((b::byte) AND 0x7F) = uint b mod 128"
  by (simp add: uint_and and_7F_mod)

lemma byte_last_iff: "((b::byte) AND 0x80 = 0) = (uint b < 128)"
proof -
  have "(b AND 0x80 = 0) = (uint (b AND 0x80) = 0)" by (simp add: uint_0_iff)
  also have "\<dots> = (uint b AND 0x80 = 0)" by (simp add: uint_and)
  also have "\<dots> = (uint b < 128)"
    using uint_lt2p [of b] by (intro and_80_zero_iff) simp_all
  finally show ?thesis .
qed

subsection \<open>Variable-length quantities\<close>

lemma double_of_int_exact: "\<bar>n\<bar> < 2 ^ 53 \<Longrightarrow> double_of_int n = n"
proof -
  assume "\<bar>n\<bar> < 2 ^ 53"
  then have "bitlen \<bar>n\<bar> \<le> 53" by (simp add: bitlen_le_iff_power)
  then show ?thesis by (simp add: double_of_int_def)
qed

lemma math_log_1: "math_log flog 1 b = 0"
  by (simp add: math_log_def double_of_int_exact)

lemma varbyte_length_le_1: "v \<le> 1 \<Longrightarrow> varbyte_length flog v = 1"
  by (simp add: varbyte_length_def max_def math_log_1 py_int_def)

lemma fold_continuation:
  "n \<le> length bs \<Longrightarrow>
   fold (\<lambda>i bs. bs[i := (bs ! i) OR 0x80]) [0..<n] bs
     = map (\<lambda>b. b OR (0x80::int)) (take n bs) @ drop n bs"
proof (induction n)
  case 0
  then show ?case by simp
next
  case (Suc n)
  then have n: "n < length bs" by simp
  have "fold (\<lambda>i bs. bs[i := (bs ! i) OR 0x80]) [0..<Suc n] bs
      = (map (\<lambda>b. b OR 0x80) (take n bs) @ drop n bs)
          [n := ((map (\<lambda>b. b OR 0x80) (take n bs) @ drop n bs) ! n) OR 0x80]"
    using Suc by simp
  also have "\<dots> = map (\<lambda>b. b OR 0x80) (take n bs) @ ((bs ! n) OR 0x80) # drop (Suc n) bs"
    using n by (simp add: list_update_append nth_append Cons_nth_drop_Suc [symmetric])
  also have "\<dots> = map (\<lambda>b. b OR 0x80) (take (Suc n) bs) @ drop (Suc n) bs"
    using n by (simp add: take_Suc_conv_app_nth)
  finally show ?case .
qed

lemma set_continuation_eq:
  "set_continuation bs
     = map (\<lambda>b. b OR 0x80) (take (length bs - 1) bs) @ drop (length bs - 1) bs"
  unfolding set_continuation_def by (rule fold_continuation) simp

lemma set_continuation_single: "set_continuation [b] = [b]"
  by (simp add: set_continuation_eq)

lemma set_continuation_Cons:
  "set_continuation (b # c # cs) = (b OR 0x80) # set_continuation (c # cs)"
  by (simp add: set_continuation_eq)

lemma be_groups_Suc:
  "be_groups (Suc n) v = (v div 128 ^ n mod 128) # be_groups n v"
proof -
  have "(2::int) ^ (n * 7) = 128 ^ n"
    using power_mult [of "2::int" 7 n] by (simp add: mult.commute)
  then show ?thesis
    by (simp add: be_groups_def and_7F_mod drop_bit_eq_div)
qed

lemma be_groups_0: "be_groups 0 v = []"
  by (simp add: be_groups_def)

lemma be_groups_range: "list_all (\<lambda>x. 0 \<le> x \<and> x < 256) (set_continuation (be_groups n v))"
proof -
  have "\<forall>x \<in> set (be_groups n v). 0 \<le> x \<and> x < 128"
    by (auto simp: be_groups_def and_7F_mod)
  then have a: "\<forall>x \<in> set (take k (be_groups n v)). 0 \<le> x \<and> x < 128"
       and b: "\<forall>x \<in> set (drop k (be_groups n v)). 0 \<le> x \<and> x < 128" for k
    by (auto dest: in_set_takeD in_set_dropD)
  have "0 \<le> x \<and> x < 256" if "x \<in> set (set_continuation (be_groups n v))" for x
  proof -
    from that consider y where "y \<in> set (take (length (be_groups n v) - 1) (be_groups n v))"
        "x = y OR 0x80"
      | "x \<in> set (drop (length (be_groups n v) - 1) (be_groups n v))"
      unfolding set_continuation_eq by auto
    then show ?thesis
    proof cases
      case 1
      with a have "0 \<le> y" "y < 128" by auto
      with 1 show ?thesis by (simp add: or_80_add)
    next
      case 2
      with b have "0 \<le> x" "x < 128" by auto
      then show ?thesis by simp
    qed
  qed
  then show ?thesis by (simp add: list_all_iff)
qed

lemma decode_groups:
  "vlq_decode_from acc (map word_of_int (set_continuation (be_groups (Suc n) v)) @ rest)
     = Some (acc * 128 ^ Suc n + v mod 128 ^ Suc n, rest)"
proof (induction n arbitrary: acc)
  case 0
  have g: "0 \<le> v mod 128" "v mod 128 < 256" "v mod 128 < 128"
    by simp_all
  show ?case
    using g
    by (simp add: be_groups_Suc be_groups_0 set_continuation_single byte_last_iff
        byte_payload uint_byte_of_int)
next
  case (Suc n)
  define g where "g = v div 128 ^ Suc n mod 128"
  have g: "0 \<le> g" "g < 128" by (simp_all add: g_def)
  obtain c cs where cs: "be_groups (Suc n) v = c # cs"
    by (simp add: be_groups_Suc)
  have "be_groups (Suc (Suc n)) v = g # c # cs"
    using cs by (simp add: be_groups_Suc [of "Suc n"] g_def)
  then have "set_continuation (be_groups (Suc (Suc n)) v)
      = (g + 128) # set_continuation (be_groups (Suc n) v)"
    using g by (simp add: set_continuation_Cons cs or_80_add)
  moreover have "uint (word_of_int (g + 128) :: byte) = g + 128"
    using g by (intro uint_byte_of_int) simp_all
  moreover have "(g + 128) mod 128 = g" using g by simp
  moreover have "(acc * 128 + g) * 128 ^ Suc n + v mod 128 ^ Suc n
      = acc * 128 ^ Suc (Suc n) + v mod 128 ^ Suc (Suc n)"
  proof -
    have "v mod (128 ^ Suc n * 128) = 128 ^ Suc n * g + v mod 128 ^ Suc n"
      unfolding g_def by (rule zmod_zmult2_eq) simp
    moreover have "(128::int) ^ Suc (Suc n) = 128 ^ Suc n * 128"
      by (rule power_Suc2)
    ultimately have "v mod 128 ^ Suc (Suc n) = 128 ^ Suc n * g + v mod 128 ^ Suc n"
      by (simp only:)
    moreover have "(acc * 128 + g) * 128 ^ Suc n
        = acc * 128 ^ Suc (Suc n) + 128 ^ Suc n * g"
      by (simp add: algebra_simps)
    ultimately show ?thesis by (simp only: add.assoc)
  qed
  ultimately show ?case
    using g Suc.IH [of "acc * 128 + g"]
    by (simp add: byte_last_iff byte_payload del: power_Suc)
qed

lemma decode_bound:
  "vlq_decode_from acc bs = Some (v, rest) \<Longrightarrow> 0 \<le> acc \<Longrightarrow>
   length rest < length bs \<and> v < (acc + 1) * 128 ^ (length bs - length rest)"
proof (induction acc bs rule: vlq_decode_from.induct)
  case (1 acc)
  then show ?case by simp
next
  case (2 acc b bs)
  have p: "0 \<le> uint b mod 128" "uint b mod 128 < 128" by simp_all
  show ?case
  proof (cases "b AND 0x80 = 0")
    case True
    with 2 p show ?thesis by (auto simp: byte_payload)
  next
    case False
    define acc' where "acc' = acc * 128 + uint b mod 128"
    have acc': "0 \<le> acc'" "acc' + 1 \<le> (acc + 1) * 128"
      using p "2.prems"(2) by (simp_all add: acc'_def algebra_simps)
    from False "2.prems"(1) have d: "vlq_decode_from acc' bs = Some (v, rest)"
      by (simp add: byte_payload acc'_def)
    from "2.IH" [OF _ False, of acc'] d acc'
    have ih: "length rest < length bs" "v < (acc' + 1) * 128 ^ (length bs - length rest)"
      by (simp_all add: acc'_def byte_payload)
    have "(acc' + 1) * 128 ^ (length bs - length rest)
        \<le> ((acc + 1) * 128) * 128 ^ (length bs - length rest)"
      using acc' by (intro mult_right_mono) simp_all
    also have "\<dots> = (acc + 1) * 128 ^ (Suc (length bs) - length rest)"
      using ih(1) by (simp add: Suc_diff_le)
    finally show ?thesis using ih by simp
  qed
qed

text \<open>
  \<^verbatim>\<open>int_to_varbyte\<close> never raises: it writes as many groups as the computed length
  says, the low seven bits of the value last.
\<close>

lemma int_to_varbyte_groups:
  "int_to_varbyte flog v
     = Inr (map word_of_int (set_continuation (be_groups (nat (varbyte_length flog v)) v)))"
  using be_groups_range [of "nat (varbyte_length flog v)" v]
  by (simp add: int_to_varbyte_def pack_B_def be_groups_def Let_def)

lemma length_int_to_varbyte:
  "int_to_varbyte flog v = Inr bs \<Longrightarrow> length bs = nat (varbyte_length flog v)"
  by (auto simp: int_to_varbyte_groups set_continuation_eq be_groups_def)

text \<open>
  The bytes decode to the value exactly when the computed length is large enough for
  it, whatever the logarithm.
\<close>

lemma varbyte_decodes:
  assumes "0 \<le> t" "t < 128 ^ nat (varbyte_length flog t)"
  shows "\<exists>bs. int_to_varbyte flog t = Inr bs
           \<and> length bs = nat (varbyte_length flog t)
           \<and> (\<forall>rest. vlq_decode (bs @ rest) = Some (t, rest))"
proof -
  define n where "n = nat (varbyte_length flog t)"
  have "0 < n"
  proof (cases "t \<le> 1")
    case True
    then show ?thesis by (simp add: n_def varbyte_length_le_1)
  next
    case False
    with assms(2) show ?thesis by (cases "n = 0") (simp_all add: n_def)
  qed
  then obtain m where m: "n = Suc m" by (cases n) simp_all
  from assms have "t mod 128 ^ n = t" by (simp add: n_def)
  then have "vlq_decode (map word_of_int (set_continuation (be_groups n t)) @ rest)
      = Some (t, rest)" for rest
    using decode_groups [of 0 m t rest] by (simp add: vlq_decode_def m)
  moreover have "length (set_continuation (be_groups n t)) = n"
    by (simp add: set_continuation_eq be_groups_def)
  ultimately show ?thesis
    by (simp add: int_to_varbyte_groups n_def)
qed

lemma decoded_needs_length:
  assumes "vlq_decode cs = Some (t, [])" "0 \<le> t"
  shows "floorlog 128 (nat (max t 1)) \<le> length cs"
proof -
  from assms(1) have "vlq_decode_from 0 cs = Some (t, [])"
    by (simp add: vlq_decode_def)
  from decode_bound [OF this]
  have "length [] < length cs \<and> t < (0 + 1) * 128 ^ (length cs - length [])"
    by simp
  then have c: "0 < length cs" "t < 128 ^ length cs" by simp_all
  then have "max t 1 < 128 ^ length cs"
    by (simp add: max_def)
  then have "nat (max t 1) < 128 ^ length cs"
    by (metis nat_less_iff of_nat_numeral of_nat_power max.coboundedI2 zero_le_one)
  then show ?thesis by (intro floorlog_leI) simp_all
qed

text \<open>
  Where the computed length is the number of seven-bit groups of the value
  (\<open>floorlog 128\<close>), the bytes decode to the value and no byte string that decodes to
  it is shorter.
\<close>

lemma varbyte_minimal_if_length_exact:
  assumes "0 \<le> t" "varbyte_length flog t = int (floorlog 128 (nat (max t 1)))"
  shows "\<exists>bs. int_to_varbyte flog t = Inr bs
           \<and> (\<forall>rest. vlq_decode (bs @ rest) = Some (t, rest))
           \<and> (\<forall>cs. vlq_decode cs = Some (t, []) \<longrightarrow> length bs \<le> length cs)"
proof -
  define n where "n = floorlog 128 (nat (max t 1))"
  have n: "nat (varbyte_length flog t) = n" using assms(2) by (simp add: n_def)
  have "nat (max t 1) < 128 ^ n"
    unfolding n_def using floorlog_bounds [of "nat (max t 1)" 128] by simp
  then have "nat t < 128 ^ n" by simp
  then have "t < 128 ^ n" using assms(1)
    by (metis nat_less_iff of_nat_numeral of_nat_power)
  with assms(1) n varbyte_decodes [of t flog] obtain bs where
    bs: "int_to_varbyte flog t = Inr bs" "length bs = n"
      "\<forall>rest. vlq_decode (bs @ rest) = Some (t, rest)"
    by auto
  have "length bs \<le> length cs" if "vlq_decode cs = Some (t, [])" for cs
    using decoded_needs_length [OF that assms(1)] bs(2) by (simp add: n_def)
  with bs show ?thesis by blast
qed

text \<open>
  The integers \<open>2 ^ 56 - 1\<close> and \<open>2 ^ 56\<close> are converted to the same double, so the
  logarithm, and with it the length, is the same for both.
\<close>

lemma double_of_int_2_56_minus_1: "double_of_int 72057594037927935 = 72057594037927936"
  by (simp add: double_of_int_def compute_bitlen)

lemma double_of_int_2_56: "double_of_int 72057594037927936 = 72057594037927936"
  by (simp add: double_of_int_def compute_bitlen)

lemma varbyte_length_2_56:
  "varbyte_length flog 72057594037927935 = varbyte_length flog 72057594037927936"
  by (simp add: varbyte_length_def math_log_def double_of_int_2_56_minus_1
      double_of_int_2_56)

text \<open>
  What is written where the logarithm comes out as a whole number although the value
  is just below the power of 128: one group more than the value has, the first of them
  empty. The hypotheses are the values that \<^verbatim>\<open>math.log\<close> is observed to return:
  8.0 for \<open>2 ^ 56 - 1\<close>, whose double is \<open>2 ^ 56\<close>, and 7.0 for \<open>2 ^ 49 - 1\<close>, which is
  a double itself.
\<close>

lemma int_to_varbyte_2_56_minus_1:
  assumes "py_int (flog 72057594037927936 128) = 8"
  shows "int_to_varbyte flog 72057594037927935
     = Inr [0x80, 0xFF, 0xFF, 0xFF, 0xFF, 0xFF, 0xFF, 0xFF, 0x7F]"
proof -
  have n: "(9::nat) = Suc (Suc (Suc (Suc (Suc (Suc (Suc (Suc (Suc 0))))))))"
    by simp
  have g: "be_groups 9 72057594037927935 = [0, 127, 127, 127, 127, 127, 127, 127, 127]"
    unfolding n be_groups_Suc be_groups_0 by simp
  have "double_of_int 128 = 128" by (rule double_of_int_exact) simp
  then have "varbyte_length flog 72057594037927935 = 9"
    using assms by (simp add: varbyte_length_def math_log_def double_of_int_2_56_minus_1)
  then have "int_to_varbyte flog 72057594037927935
     = Inr (map word_of_int (set_continuation (be_groups 9 72057594037927935)))"
    by (simp add: int_to_varbyte_groups)
  then show ?thesis
    unfolding g by (simp add: set_continuation_single set_continuation_Cons)
qed

lemma int_to_varbyte_2_49_minus_1:
  assumes "py_int (flog 562949953421311 128) = 7"
  shows "int_to_varbyte flog 562949953421311
     = Inr [0x80, 0xFF, 0xFF, 0xFF, 0xFF, 0xFF, 0xFF, 0x7F]
   \<and> vlq_decode [0xFF, 0xFF, 0xFF, 0xFF, 0xFF, 0xFF, 0x7F] = Some (562949953421311, [])"
proof -
  have n: "(8::nat) = Suc (Suc (Suc (Suc (Suc (Suc (Suc (Suc 0)))))))"
    by simp
  have g: "be_groups 8 562949953421311 = [0, 127, 127, 127, 127, 127, 127, 127]"
    unfolding n be_groups_Suc be_groups_0 by simp
  have "double_of_int 128 = 128" by (rule double_of_int_exact) simp
  moreover have "double_of_int 562949953421311 = 562949953421311"
    by (rule double_of_int_exact) simp
  ultimately have "varbyte_length flog 562949953421311 = 8"
    using assms by (simp add: varbyte_length_def math_log_def)
  then have "int_to_varbyte flog 562949953421311
     = Inr (map word_of_int (set_continuation (be_groups 8 562949953421311)))"
    by (simp add: int_to_varbyte_groups)
  then have "int_to_varbyte flog 562949953421311
     = Inr [0x80, 0xFF, 0xFF, 0xFF, 0xFF, 0xFF, 0xFF, 0x7F]"
    unfolding g by (simp add: set_continuation_single set_continuation_Cons)
  moreover have "vlq_decode [0xFF, 0xFF, 0xFF, 0xFF, 0xFF, 0xFF, 0x7F]
     = Some (562949953421311, [])"
    by (simp add: vlq_decode_def)
  ultimately show ?thesis by (intro conjI)
qed

text \<open>
  Claim C1 does not hold of the code, whatever the logarithm of the platform. The
  length is computed from the double nearest to the value, and \<open>2 ^ 56 - 1\<close> and
  \<open>2 ^ 56\<close> have the same double. The first is the value of the eight bytes
  FF FF FF FF FF FF FF 7F, the second needs nine bytes. So either \<open>2 ^ 56 - 1\<close> is
  written with more than eight bytes, which is not the minimal sequence, or the bytes
  written for \<open>2 ^ 56\<close> do not decode to it. (With the logarithm 8.0 that
  \<^verbatim>\<open>math.log\<close> is observed to return it is the first: lemma
  \<open>int_to_varbyte_2_56_minus_1\<close>.)
\<close>

theorem int_to_varbyte_length_from_double:
  "vlq_decode [0xFF, 0xFF, 0xFF, 0xFF, 0xFF, 0xFF, 0xFF, 0x7F]
     = Some (72057594037927935, [])
   \<and> \<not> ((\<exists>bs. int_to_varbyte flog 72057594037927935 = Inr bs \<and> length bs \<le> 8)
        \<and> (\<exists>bs. int_to_varbyte flog 72057594037927936 = Inr bs
              \<and> vlq_decode bs = Some (72057594037927936, [])))"
proof -
  have d: "vlq_decode [0xFF, 0xFF, 0xFF, 0xFF, 0xFF, 0xFF, 0xFF, 0x7F]
     = Some (72057594037927935, [])"
    by (simp add: vlq_decode_def)
  have "False"
    if a: "int_to_varbyte flog 72057594037927935 = Inr bs" "length bs \<le> 8"
      and b: "int_to_varbyte flog 72057594037927936 = Inr cs"
        "vlq_decode cs = Some (72057594037927936, [])"
    for bs cs
  proof -
    have l: "length cs = length bs"
      using length_int_to_varbyte [OF a(1)] length_int_to_varbyte [OF b(1)]
      by (simp add: varbyte_length_2_56)
    from b(2) have "vlq_decode_from 0 cs = Some (72057594037927936, [])"
      by (simp add: vlq_decode_def)
    from decode_bound [OF this] have "72057594037927936 < (128::int) ^ length cs"
      by simp
    also have "(128::int) ^ length cs \<le> 128 ^ 8"
      using l a(2) by (intro power_increasing) simp_all
    finally show False by simp
  qed
  with d show ?thesis by blast
qed

text \<open>
  The theorem for the exact logarithm, with which \<open>2 ^ 56 - 1\<close> is written with nine
  bytes, the logarithm of its double \<open>2 ^ 56\<close> being 8.
\<close>

theorem int_to_varbyte_length_from_double_witness:
  "vlq_decode [0xFF, 0xFF, 0xFF, 0xFF, 0xFF, 0xFF, 0xFF, 0x7F]
     = Some (72057594037927935, [])
   \<and> \<not> ((\<exists>bs. int_to_varbyte example_log 72057594037927935 = Inr bs \<and> length bs \<le> 8)
        \<and> (\<exists>bs. int_to_varbyte example_log 72057594037927936 = Inr bs
              \<and> vlq_decode bs = Some (72057594037927936, [])))
   \<and> int_to_varbyte example_log 72057594037927935
        = Inr [0x80, 0xFF, 0xFF, 0xFF, 0xFF, 0xFF, 0xFF, 0xFF, 0x7F]"
proof -
  have "(72057594037927936::real) = 128 powr 8" by simp
  then have "log 128 72057594037927936 = (8::real)"
    by (simp only: log_powr_cancel)
  then have "py_int (example_log 72057594037927936 128) = 8"
    by (simp add: example_log_def py_int_def)
  with int_to_varbyte_2_56_minus_1 [of example_log]
    int_to_varbyte_length_from_double [of example_log]
  show ?thesis by simp
qed

subsection \<open>Note events\<close>

lemma int_to_varbyte_zero: "int_to_varbyte flog 0 = Inr [0x00]"
  by (simp add: int_to_varbyte_groups varbyte_length_le_1 be_groups_Suc be_groups_0
      set_continuation_single)

lemma status_byte_range:
  assumes "nibble et" "0 \<le> ch" "ch < 16"
  shows "0 \<le> ch OR push_bit 4 et" "ch OR push_bit 4 et < 256"
proof -
  have e: "0 \<le> push_bit 4 et" "push_bit 4 et < 2 ^ 8"
    using assms(1) by (simp_all add: nibble_def push_bit_eq_mult)
  show "0 \<le> ch OR push_bit 4 et" using assms(2) e(1) by simp
  have "ch OR push_bit 4 et < 2 ^ 8"
    using assms(2,3) e(2) by (intro OR_upper) simp_all
  then show "ch OR push_bit 4 et < 256" by simp
qed

lemma midi_event_two_params:
  assumes "nibble et" "0 \<le> ch" "ch < 16" "0 \<le> p1" "p1 \<le> 127" "0 \<le> p2" "p2 \<le> 127"
  shows "midi_event self et ch p1 (Some p2)
    = Inr (delta_time self @ map word_of_int [ch OR push_bit 4 et, p1, p2])"
  using assms status_byte_range [OF assms(1-3)]
  by (simp add: midi_event_def nibble_def py_bytes_def)

lemma note_on_valid:
  assumes "valid_note n" "nibble (NOTE_ON K)"
  shows "note_on K self (channel n) (note_int n + 12) (velocity n)
    = Inr (delta_time self @ note_event_bytes (NOTE_ON K) n)"
  using assms unfolding note_on_def note_event_bytes_def valid_note_def
  by (intro midi_event_two_params) simp_all

lemma note_off_valid:
  assumes "valid_note n" "nibble (NOTE_OFF K)"
  shows "note_off K self (channel n) (note_int n + 12) (velocity n)
    = Inr (delta_time self @ note_event_bytes (NOTE_OFF K) n)"
  using assms unfolding note_off_def note_event_bytes_def valid_note_def
  by (intro midi_event_two_params) simp_all

lemma uint_note_event_bytes:
  assumes "valid_note n" "nibble et"
  shows "map uint (note_event_bytes et n) = [push_bit 4 et OR channel n, note_int n + 12, velocity n]"
proof -
  from assms have "0 \<le> channel n" "channel n < 16" by (simp_all add: valid_note_def)
  from status_byte_range [OF assms(2) this]
  have 1: "uint (word_of_int (channel n OR push_bit 4 et) :: byte) = channel n OR push_bit 4 et"
    by (rule uint_byte_of_int)
  have 2: "uint (word_of_int (note_int n + 12) :: byte) = note_int n + 12"
    using assms(1) by (intro uint_byte_of_int) (simp_all add: valid_note_def)
  have 3: "uint (word_of_int (velocity n) :: byte) = velocity n"
    using assms(1) by (intro uint_byte_of_int) (simp_all add: valid_note_def)
  show ?thesis
    unfolding note_event_bytes_def by (simp only: list.map 1 2 3 or.commute)
qed

lemma append_event_delta [simp]: "delta_time (snd (append_event self r)) = delta_time self"
  by (cases r) (simp_all add: append_event_def)

lemma append_event_flag [simp]:
  "change_instrument (snd (append_event self r)) = change_instrument self"
  by (cases r) (simp_all add: append_event_def)

lemma set_instrument_delta [simp]:
  "delta_time (snd (set_instrument K self ch i b)) = delta_time self"
proof -
  obtain e s where a: "append_event self (select_bank K self ch b) = (e, s)"
    by (cases "append_event self (select_bank K self ch b)")
  then have "delta_time s = delta_time self"
    using append_event_delta [of self "select_bank K self ch b"] by simp
  with a show ?thesis
    by (cases e) (simp_all add: set_instrument_def)
qed

lemma apply_instrument_change_delta [simp]:
  "delta_time (snd (apply_instrument_change K self ch)) = delta_time self"
proof (cases "change_instrument self")
  case True
  obtain e s where a: "set_instrument K self ch (instrument self) 1 = (e, s)"
    by (cases "set_instrument K self ch (instrument self) 1")
  then have "delta_time s = delta_time self"
    using set_instrument_delta [of K self ch "instrument self" 1] by simp
  with a True show ?thesis
    by (cases e) (simp_all add: apply_instrument_change_def)
next
  case False
  then show ?thesis by (simp add: apply_instrument_change_def)
qed

lemma apply_instrument_change_flag:
  "fst (apply_instrument_change K self ch) = None \<Longrightarrow>
   \<not> change_instrument (snd (apply_instrument_change K self ch))"
  by (cases "set_instrument K self ch (instrument self) 1")
     (auto simp: apply_instrument_change_def split: option.splits)

lemma apply_instrument_change_idle:
  "\<not> change_instrument self \<Longrightarrow> apply_instrument_change K self ch = (None, self)"
  by (simp add: apply_instrument_change_def)

lemma play_Note_valid:
  assumes "valid_note n" "nibble (NOTE_ON K)"
    and "apply_instrument_change K self (channel n) = (None, self1)"
  shows "play_Note K self n
    = (None, self1\<lparr>track_data :=
         track_data self1 @ delta_time self @ note_event_bytes (NOTE_ON K) n\<rparr>)"
proof -
  have "delta_time self1 = delta_time self"
    using apply_instrument_change_delta [of K self "channel n"] assms(3) by simp
  then show ?thesis
    using assms note_on_valid [OF assms(1,2), of self1]
    by (simp add: play_Note_def append_event_def valid_note_def)
qed

lemma stop_Note_valid:
  assumes "valid_note n" "nibble (NOTE_OFF K)"
  shows "stop_Note K self n
    = (None, self\<lparr>track_data :=
         track_data self @ delta_time self @ note_event_bytes (NOTE_OFF K) n\<rparr>)"
  using note_off_valid [OF assms, of self]
  by (simp add: stop_Note_def append_event_def)

lemma for_each_play_Note:
  assumes "list_all valid_note ns" "nibble (NOTE_ON K)" "\<not> change_instrument s"
  shows "for_each (play_Note K) s ns
    = (None, s\<lparr>track_data := track_data s
         @ concat (map (\<lambda>n. delta_time s @ note_event_bytes (NOTE_ON K) n) ns)\<rparr>)"
  using assms
proof (induction ns arbitrary: s)
  case Nil
  then show ?case by simp
next
  case (Cons n ns)
  let ?s = "s\<lparr>track_data := track_data s @ delta_time s @ note_event_bytes (NOTE_ON K) n\<rparr>"
  from Cons.prems have n: "valid_note n" and ns: "list_all valid_note ns" by simp_all
  have "play_Note K s n = (None, ?s)"
    using n Cons.prems(2) apply_instrument_change_idle [OF Cons.prems(3)]
    by (rule play_Note_valid)
  moreover have "for_each (play_Note K) ?s ns
    = (None, ?s\<lparr>track_data := track_data ?s
         @ concat (map (\<lambda>n. delta_time ?s @ note_event_bytes (NOTE_ON K) n) ns)\<rparr>)"
    using ns Cons.prems(2,3) by (intro Cons.IH) simp_all
  ultimately show ?case by simp
qed

lemma for_each_stop_Note:
  assumes "list_all valid_note ns" "nibble (NOTE_OFF K)"
  shows "for_each (stop_Note K) s ns
    = (None, s\<lparr>track_data := track_data s
         @ concat (map (\<lambda>n. delta_time s @ note_event_bytes (NOTE_OFF K) n) ns)\<rparr>)"
  using assms
proof (induction ns arbitrary: s)
  case Nil
  then show ?case by simp
next
  case (Cons n ns)
  let ?s = "s\<lparr>track_data := track_data s @ delta_time s @ note_event_bytes (NOTE_OFF K) n\<rparr>"
  from Cons.prems have n: "valid_note n" and ns: "list_all valid_note ns" by simp_all
  have "stop_Note K s n = (None, ?s)"
    using n Cons.prems(2) by (rule stop_Note_valid)
  moreover have "for_each (stop_Note K) ?s ns
    = (None, ?s\<lparr>track_data := track_data ?s
         @ concat (map (\<lambda>n. delta_time ?s @ note_event_bytes (NOTE_OFF K) n) ns)\<rparr>)"
    using ns Cons.prems(2) by (intro Cons.IH) simp_all
  ultimately show ?case by simp
qed

lemma set_deltatime_zero:
  "set_deltatime flog s (DeltaInt 0) = (None, s\<lparr>delta_time := [0x00]\<rparr>)"
  by (simp add: set_deltatime_def int_to_varbyte_zero)

text \<open>
  Claim C3. For a note with channel in \<open>[0, 15]\<close>, pitch in \<open>[0, 127]\<close> after the shift
  by 12 and velocity in \<open>[0, 127]\<close>, the note-on (note-off) event is the current delta
  time followed by three bytes whose values are exactly the status
  \<open>(event_type << 4) | channel\<close>, the shifted pitch and the velocity; \<^verbatim>\<open>play_Note\<close>
  appends the note-on event after a pending instrument change, if any, and
  \<^verbatim>\<open>stop_Note\<close> appends the note-off event.
\<close>

theorem note_event_encoding:
  assumes "valid_note n" and "nibble (NOTE_ON K)" and "nibble (NOTE_OFF K)"
  shows "note_on K self (channel n) (note_int n + 12) (velocity n)
           = Inr (delta_time self @ note_event_bytes (NOTE_ON K) n)
       \<and> map uint (note_event_bytes (NOTE_ON K) n)
           = [push_bit 4 (NOTE_ON K) OR channel n, note_int n + 12, velocity n]
       \<and> note_off K self (channel n) (note_int n + 12) (velocity n)
           = Inr (delta_time self @ note_event_bytes (NOTE_OFF K) n)
       \<and> map uint (note_event_bytes (NOTE_OFF K) n)
           = [push_bit 4 (NOTE_OFF K) OR channel n, note_int n + 12, velocity n]
       \<and> (\<forall>self1. apply_instrument_change K self (channel n) = (None, self1) \<longrightarrow>
            play_Note K self n
              = (None, self1\<lparr>track_data :=
                   track_data self1 @ delta_time self @ note_event_bytes (NOTE_ON K) n\<rparr>))
       \<and> stop_Note K self n
           = (None, self\<lparr>track_data :=
                track_data self @ delta_time self @ note_event_bytes (NOTE_OFF K) n\<rparr>)"
  using note_on_valid [OF assms(1,2)] note_off_valid [OF assms(1,3)]
    uint_note_event_bytes [OF assms(1,2)] uint_note_event_bytes [OF assms(1,3)]
    play_Note_valid [OF assms(1,2)] stop_Note_valid [OF assms(1,3)]
  by blast

lemma standard_nibbles:
  "nibble (NOTE_ON standard_midi_events)" "nibble (NOTE_OFF standard_midi_events)"
  by (simp_all add: standard_midi_events_def nibble_def)

text \<open>The theorem for middle C (pitch 48 + 12 = 60) at velocity 100 on channel 0.\<close>

theorem note_event_encoding_witness:
  "valid_note (example_note 48 100)
   \<and> nibble (NOTE_ON standard_midi_events) \<and> nibble (NOTE_OFF standard_midi_events)
   \<and> apply_instrument_change standard_midi_events example_track 0 = (None, example_track)
   \<and> note_on standard_midi_events example_track 0 60 100 = Inr [0x00, 0x90, 0x3C, 0x64]
   \<and> note_off standard_midi_events example_track 0 60 100 = Inr [0x00, 0x80, 0x3C, 0x64]
   \<and> play_Note standard_midi_events example_track (example_note 48 100)
       = (None, example_track\<lparr>track_data := [0x00, 0x90, 0x3C, 0x64]\<rparr>)"
proof -
  have v: "valid_note (example_note 48 100)"
    by (simp add: valid_note_def example_note_def)
  have a: "apply_instrument_change standard_midi_events example_track 0 = (None, example_track)"
    by (simp add: apply_instrument_change_def example_track_def)
  have b: "note_event_bytes (NOTE_ON standard_midi_events) (example_note 48 100)
      = [0x90, 0x3C, 0x64]"
    "note_event_bytes (NOTE_OFF standard_midi_events) (example_note 48 100)
      = [0x80, 0x3C, 0x64]"
    by (simp_all add: note_event_bytes_def standard_midi_events_def example_note_def)
  from note_event_encoding [OF v standard_nibbles, of example_track] a
  show ?thesis
    unfolding b using v standard_nibbles
    by (simp add: example_note_def example_track_def)
qed

text \<open>
  Claim C4. For a note container of at least two valid notes, \<^verbatim>\<open>play_NoteContainer\<close>
  writes the first note-on with the pending delta time and every further note-on with
  the delta time 00, and \<^verbatim>\<open>stop_NoteContainer\<close> does the same with the note-offs;
  both leave the delta time at 00. (A pending instrument change, when there is one, is
  written before the first note-on.)
\<close>

theorem chord_delta_times:
  assumes "list_all valid_note (n0 # n1 # ns)"
    and "nibble (NOTE_ON K)" and "nibble (NOTE_OFF K)"
    and "apply_instrument_change K self (channel n0) = (None, self1)"
  shows "play_NoteContainer K flog self (n0 # n1 # ns)
           = (None, self1\<lparr>track_data := track_data self1
                @ delta_time self @ note_event_bytes (NOTE_ON K) n0
                @ concat (map (\<lambda>n. [0x00] @ note_event_bytes (NOTE_ON K) n) (n1 # ns)),
              delta_time := [0x00]\<rparr>)
       \<and> stop_NoteContainer K flog self (n0 # n1 # ns)
           = (None, self\<lparr>track_data := track_data self
                @ delta_time self @ note_event_bytes (NOTE_OFF K) n0
                @ concat (map (\<lambda>n. [0x00] @ note_event_bytes (NOTE_OFF K) n) (n1 # ns)),
              delta_time := [0x00]\<rparr>)"
proof
  from assms(1) have n0: "valid_note n0" and rest: "list_all valid_note (n1 # ns)"
    by simp_all
  let ?on = "self1\<lparr>track_data :=
      track_data self1 @ delta_time self @ note_event_bytes (NOTE_ON K) n0\<rparr>"
  have flag: "\<not> change_instrument self1"
    using apply_instrument_change_flag [of K self "channel n0"] assms(4) by simp
  have 1: "play_Note K self n0 = (None, ?on)"
    using n0 assms(2,4) by (rule play_Note_valid)
  have 2: "set_deltatime flog ?on (DeltaInt 0) = (None, ?on\<lparr>delta_time := [0x00]\<rparr>)"
    by (rule set_deltatime_zero)
  have 3: "for_each (play_Note K) (?on\<lparr>delta_time := [0x00]\<rparr>) (n1 # ns)
      = (None, ?on\<lparr>delta_time := [0x00]\<rparr>\<lparr>track_data :=
           track_data (?on\<lparr>delta_time := [0x00]\<rparr>)
           @ concat (map (\<lambda>n. delta_time (?on\<lparr>delta_time := [0x00]\<rparr>)
               @ note_event_bytes (NOTE_ON K) n) (n1 # ns))\<rparr>)"
    using rest assms(2) flag by (intro for_each_play_Note) simp_all
  show "play_NoteContainer K flog self (n0 # n1 # ns)
           = (None, self1\<lparr>track_data := track_data self1
                @ delta_time self @ note_event_bytes (NOTE_ON K) n0
                @ concat (map (\<lambda>n. [0x00] @ note_event_bytes (NOTE_ON K) n) (n1 # ns)),
              delta_time := [0x00]\<rparr>)"
    unfolding play_NoteContainer_def using 1 2 3 by simp
next
  from assms(1) have n0: "valid_note n0" and rest: "list_all valid_note (n1 # ns)"
    by simp_all
  let ?off = "self\<lparr>track_data :=
      track_data self @ delta_time self @ note_event_bytes (NOTE_OFF K) n0\<rparr>"
  have 1: "stop_Note K self n0 = (None, ?off)"
    using n0 assms(3) by (rule stop_Note_valid)
  have 2: "set_deltatime flog ?off (DeltaInt 0) = (None, ?off\<lparr>delta_time := [0x00]\<rparr>)"
    by (rule set_deltatime_zero)
  have 3: "for_each (stop_Note K) (?off\<lparr>delta_time := [0x00]\<rparr>) (n1 # ns)
      = (None, ?off\<lparr>delta_time := [0x00]\<rparr>\<lparr>track_data :=
           track_data (?off\<lparr>delta_time := [0x00]\<rparr>)
           @ concat (map (\<lambda>n. delta_time (?off\<lparr>delta_time := [0x00]\<rparr>)
               @ note_event_bytes (NOTE_OFF K) n) (n1 # ns))\<rparr>)"
    using rest assms(3) by (intro for_each_stop_Note) simp_all
  show "stop_NoteContainer K flog self (n0 # n1 # ns)
           = (None, self\<lparr>track_data := track_data self
                @ delta_time self @ note_event_bytes (NOTE_OFF K) n0
                @ concat (map (\<lambda>n. [0x00] @ note_event_bytes (NOTE_OFF K) n) (n1 # ns)),
              delta_time := [0x00]\<rparr>)"
    unfolding stop_NoteContainer_def using 1 2 3 by simp
qed

text \<open>The theorem for the chord C-E-G after a rest of 288 ticks (delta time 82 20).\<close>

theorem chord_delta_times_witness:
  "list_all valid_note [example_note 48 100, example_note 52 100, example_note 55 100]
   \<and> nibble (NOTE_ON standard_midi_events) \<and> nibble (NOTE_OFF standard_midi_events)
   \<and> apply_instrument_change standard_midi_events
        (example_track\<lparr>delta_time := [0x82, 0x20]\<rparr>) 0
       = (None, example_track\<lparr>delta_time := [0x82, 0x20]\<rparr>)
   \<and> play_NoteContainer standard_midi_events example_log
        (example_track\<lparr>delta_time := [0x82, 0x20]\<rparr>)
        [example_note 48 100, example_note 52 100, example_note 55 100]
       = (None, example_track\<lparr>track_data :=
            [0x82, 0x20, 0x90, 0x3C, 0x64, 0x00, 0x90, 0x40, 0x64, 0x00, 0x90, 0x43, 0x64],
            delta_time := [0x00]\<rparr>)
   \<and> stop_NoteContainer standard_midi_events example_log
        (example_track\<lparr>delta_time := [0x82, 0x20]\<rparr>)
        [example_note 48 100, example_note 52 100, example_note 55 100]
       = (None, example_track\<lparr>track_data :=
            [0x82, 0x20, 0x80, 0x3C, 0x64, 0x00, 0x80, 0x40, 0x64, 0x00, 0x80, 0x43, 0x64],
            delta_time := [0x00]\<rparr>)"
proof -
  let ?t = "example_track\<lparr>delta_time := [0x82, 0x20]\<rparr>"
  have v: "list_all valid_note [example_note 48 100, example_note 52 100, example_note 55 100]"
    by (simp add: valid_note_def example_note_def)
  have a: "apply_instrument_change standard_midi_events ?t (channel (example_note 48 100))
      = (None, ?t)"
    by (simp add: apply_instrument_change_def example_track_def)
  have b: "note_event_bytes (NOTE_ON standard_midi_events) (example_note 48 100)
      = [0x90, 0x3C, 0x64]"
    "note_event_bytes (NOTE_ON standard_midi_events) (example_note 52 100)
      = [0x90, 0x40, 0x64]"
    "note_event_bytes (NOTE_ON standard_midi_events) (example_note 55 100)
      = [0x90, 0x43, 0x64]"
    "note_event_bytes (NOTE_OFF standard_midi_events) (example_note 48 100)
      = [0x80, 0x3C, 0x64]"
    "note_event_bytes (NOTE_OFF standard_midi_events) (example_note 52 100)
      = [0x80, 0x40, 0x64]"
    "note_event_bytes (NOTE_OFF standard_midi_events) (example_note 55 100)
      = [0x80, 0x43, 0x64]"
    by (simp_all add: note_event_bytes_def standard_midi_events_def example_note_def)
  have c: "channel (example_note 48 100) = 0" by (simp add: example_note_def)
  from chord_delta_times [OF v standard_nibbles a, of example_log] a v standard_nibbles
  show ?thesis
    by (simp add: b c example_track_def)
qed

lemma play_Note_failure_state:
  assumes "\<not> (0 \<le> velocity n \<and> velocity n \<le> 127)"
  shows "fst (play_Note K self n) \<noteq> None
       \<and> snd (play_Note K self n) = snd (apply_instrument_change K self (channel n))"
proof -
  obtain e s where a: "apply_instrument_change K self (channel n) = (e, s)"
    by (cases "apply_instrument_change K self (channel n)")
  then show ?thesis
    using assms by (cases e) (simp_all add: play_Note_def)
qed

text \<open>
  Claim C7, as amended. For a note whose velocity is outside \<open>[0, 127]\<close>,
  \<^verbatim>\<open>play_Note\<close> fails; when no instrument change is pending, the failure is the
  assertion on the velocity, before any byte is appended: the encoder,
  \<^verbatim>\<open>track_data\<close> included, is exactly as before the call.
\<close>

theorem play_Note_velocity_rejected:
  assumes "\<not> (0 \<le> velocity n \<and> velocity n \<le> 127)"
  shows "fst (play_Note K self n) \<noteq> None
       \<and> (\<not> change_instrument self \<longrightarrow> play_Note K self n = (Some AssertionError, self))"
proof -
  have "play_Note K self n = (Some AssertionError, self)" if "\<not> change_instrument self"
    using assms apply_instrument_change_idle [OF that, of K "channel n"]
    by (simp add: play_Note_def)
  then show ?thesis
    using play_Note_failure_state [OF assms, of K self] by simp
qed

text \<open>The theorem for a note of velocity 200, with no instrument change pending.\<close>

theorem play_Note_velocity_rejected_witness:
  "\<not> (0 \<le> velocity (example_note 48 200) \<and> velocity (example_note 48 200) \<le> 127)
   \<and> \<not> change_instrument example_track
   \<and> play_Note standard_midi_events example_track (example_note 48 200)
       = (Some AssertionError, example_track)"
  using play_Note_velocity_rejected [of "example_note 48 200" standard_midi_events example_track]
  by (simp add: example_note_def example_track_def)

text \<open>
  Claim C7 as stated fails when an instrument change is pending: the bank-select and
  program-change events are appended to \<^verbatim>\<open>track_data\<close> (empty before the call)
  before the assertion on the velocity 200 fails.
\<close>

theorem play_Note_writes_before_failing:
  "play_Note standard_midi_events (example_track\<lparr>change_instrument := True\<rparr>)
     (example_note 48 200)
   = (Some AssertionError,
      example_track\<lparr>track_data := [0x00, 0xB0, 0x00, 0x01, 0x00, 0xC0, 0x01]\<rparr>)
   \<and> track_data (example_track\<lparr>change_instrument := True\<rparr>) = []"
  by (simp add: play_Note_def apply_instrument_change_def set_instrument_def append_event_def
      select_bank_def controller_event_def program_change_event_def midi_event_def
      py_bytes_def standard_midi_events_def example_track_def example_note_def)

subsection \<open>Tempo events\<close>

lemma hex_value_hex_char: "d < 16 \<Longrightarrow> hex_value (hex_char d) = Some (int d)"
proof -
  have "list_all (\<lambda>d. hex_value (hex_char d) = Some (int d)) [0..<16]"
    by (simp add: upt_rec hex_value_def hex_char_def)
  then show "d < 16 \<Longrightarrow> hex_value (hex_char d) = Some (int d)"
    by (simp add: list_all_iff)
qed

lemma hex_fixed_snoc: "hex_fixed (Suc k) n = hex_fixed k (n div 16) @ [hex_char (n mod 16)]"
proof -
  have "[0..<Suc k] = 0 # map Suc [0..<k]"
    by (simp add: upt_conv_Cons map_Suc_upt del: upt_Suc)
  then show ?thesis
    by (simp add: hex_fixed_def rev_map comp_def div_mult2_eq del: upt_Suc)
qed

lemma hex_fixed_zero: "hex_fixed k 0 = replicate k CHR ''0''"
  by (induction k) (simp_all add: hex_fixed_def hex_char_def replicate_append_same)

lemma zero_pad_hex_digits:
  "n < 16 ^ k \<Longrightarrow> 0 < k \<Longrightarrow> zero_pad k (hex_digits n) = hex_fixed k n"
proof (induction k arbitrary: n)
  case 0
  then show ?case by simp
next
  case (Suc k)
  show ?case
  proof (cases "n < 16")
    case True
    then have "hex_fixed (Suc k) n = replicate k CHR ''0'' @ [hex_char n]"
      by (simp add: hex_fixed_snoc hex_fixed_zero)
    with True show ?thesis by (simp add: zero_pad_def hex_digits.simps [of n])
  next
    case False
    with Suc.prems have k: "0 < k" by (cases k) simp_all
    from Suc.prems have "n div 16 < 16 ^ k" by (simp add: less_mult_imp_div_less mult.commute)
    from Suc.IH [OF this k] False show ?thesis
      by (simp add: zero_pad_def hex_digits.simps [of n] hex_fixed_snoc)
  qed
qed

lemma be_bytes_snoc:
  "be_bytes (Suc k) n = be_bytes k (n div 256) @ [word_of_int (int (n mod 256))]"
proof -
  have "[0..<Suc k] = 0 # map Suc [0..<k]"
    by (simp add: upt_conv_Cons map_Suc_upt del: upt_Suc)
  then show ?thesis
    by (simp add: be_bytes_def rev_map comp_def div_mult2_eq del: upt_Suc)
qed

lemma be_bytes_0: "be_bytes 0 n = []"
  by (simp add: be_bytes_def)

lemma length_be_bytes: "length (be_bytes k n) = k"
  by (simp add: be_bytes_def)

lemma be_value_snoc: "be_value (bs @ [b]) = be_value bs * 256 + uint b"
  by (simp add: be_value_def)

lemma be_value_be_bytes: "be_value (be_bytes k n) = int (n mod 256 ^ k)"
proof (induction k arbitrary: n)
  case 0
  then show ?case by (simp add: be_bytes_0 be_value_def)
next
  case (Suc k)
  have "uint (word_of_int (int (n mod 256)) :: byte) = int (n mod 256)"
    by (intro uint_byte_of_int) simp_all
  moreover have "n mod (256 * 256 ^ k) = 256 * (n div 256 mod 256 ^ k) + n mod 256"
    by (rule mod_mult2_eq)
  ultimately show ?case
    by (simp add: be_bytes_snoc be_value_snoc Suc.IH)
qed

lemma a2b_hex_append:
  "even (length xs) \<Longrightarrow>
   a2b_hex (xs @ ys)
     = (case a2b_hex xs of
          Inl e \<Rightarrow> Inl e
        | Inr bs \<Rightarrow> (case a2b_hex ys of Inl e \<Rightarrow> Inl e | Inr cs \<Rightarrow> Inr (bs @ cs)))"
  by (induction xs rule: a2b_hex.induct) (auto split: option.splits sum.splits)

lemma hex_pair: "(m div 16 mod 16) * 16 + m mod 16 = m mod (256::nat)"
proof -
  have "m mod (16 * 16) = 16 * (m div 16 mod 16) + m mod 16"
    by (rule mod_mult2_eq)
  then show ?thesis by simp
qed

lemma a2b_hex_fixed: "a2b_hex (hex_fixed (2 * k) n) = Inr (be_bytes k n)"
proof (induction k arbitrary: n)
  case 0
  then show ?case by (simp add: hex_fixed_def be_bytes_0)
next
  case (Suc k)
  have "n div 16 div 16 = n div 256"
    using div_mult2_eq [of n 16 16] by simp
  then have "hex_fixed (2 * Suc k) n
      = hex_fixed (2 * k) (n div 256) @ [hex_char (n div 16 mod 16), hex_char (n mod 16)]"
    by (simp add: hex_fixed_snoc)
  moreover have "even (length (hex_fixed (2 * k) (n div 256)))"
    by (simp add: hex_fixed_def)
  moreover have "a2b_hex [hex_char (n div 16 mod 16), hex_char (n mod 16)]
      = Inr [word_of_int (int (n mod 256))]"
  proof -
    have v: "hex_value (hex_char (n div 16 mod 16)) = Some (int (n div 16 mod 16))"
      "hex_value (hex_char (n mod 16)) = Some (int (n mod 16))"
      by (simp_all add: hex_value_hex_char)
    have e: "int (n div 16 mod 16) * 16 + int (n mod 16) = int (n mod 256)"
      unfolding hex_pair [of n, symmetric] by simp
    show ?thesis
      by (simp only: a2b_hex.simps v e option.case prod.case sum.case)
  qed
  ultimately show ?case
    by (simp add: a2b_hex_append Suc.IH be_bytes_snoc)
qed

lemma format_0x_6:
  "0 \<le> q \<Longrightarrow> q < 2 ^ 24 \<Longrightarrow> a2b_hex (format_0x 6 q) = Inr (be_bytes 3 (nat q))"
proof -
  assume q: "0 \<le> q" "q < 2 ^ 24"
  then have "nat q < 16 ^ 6" by simp
  then have "zero_pad 6 (hex_digits (nat q)) = hex_fixed 6 (nat q)"
    by (intro zero_pad_hex_digits) simp_all
  with q show ?thesis
    using a2b_hex_fixed [of 3 "nat q"] by (simp add: format_0x_def)
qed

lemma set_tempo_event_payload:
  assumes "4 \<le> b"
  shows "set_tempo_event K self b
    = Inr (delta_time self @ META_EVENT K @ SET_TEMPO K @ [0x03]
        @ be_bytes 3 (nat (60000000 div b)))"
proof -
  have "60000000 div b \<le> 60000000 div 4"
    using assms by (intro zdiv_mono2) simp_all
  then have q: "60000000 div b < 2 ^ 24" by simp
  have "0 \<le> 60000000 div b" using assms by (simp add: pos_imp_zdiv_nonneg_iff)
  from format_0x_6 [OF this q] assms show ?thesis
    by (simp add: set_tempo_event_def)
qed

text \<open>
  Claim C2, as amended. For every integer \<open>bpm \<ge> 4\<close>, \<^verbatim>\<open>set_tempo_event(bpm)\<close> is
  the delta time, the meta-event prefix, the tempo type, the length byte 03 and three
  bytes that read as a big-endian number are \<open>60000000 div bpm\<close>; for \<open>bpm = 120\<close>
  these are 07 A1 20.
\<close>

theorem set_tempo_event_bytes:
  assumes "4 \<le> b"
  shows "(\<exists>payload. set_tempo_event K self b
            = Inr (delta_time self @ META_EVENT K @ SET_TEMPO K @ [0x03] @ payload)
          \<and> length payload = 3 \<and> be_value payload = 60000000 div b)
       \<and> set_tempo_event K self 120
            = Inr (delta_time self @ META_EVENT K @ SET_TEMPO K @ [0x03, 0x07, 0xA1, 0x20])"
proof -
  have "0 \<le> 60000000 div b" using assms by (simp add: pos_imp_zdiv_nonneg_iff)
  moreover have "60000000 div b \<le> 60000000 div 4"
    using assms by (intro zdiv_mono2) simp_all
  ultimately have "be_value (be_bytes 3 (nat (60000000 div b))) = 60000000 div b"
    by (simp add: be_value_be_bytes)
  then have 1: "\<exists>payload. set_tempo_event K self b
            = Inr (delta_time self @ META_EVENT K @ SET_TEMPO K @ [0x03] @ payload)
          \<and> length payload = 3 \<and> be_value payload = 60000000 div b"
    using set_tempo_event_payload [OF assms, of K self] length_be_bytes [of 3] by blast
  have "be_bytes 3 500000 = [0x07, 0xA1, 0x20]"
    by (simp add: be_bytes_def upt_rec)
  then have 2: "set_tempo_event K self 120
            = Inr (delta_time self @ META_EVENT K @ SET_TEMPO K @ [0x03, 0x07, 0xA1, 0x20])"
    using set_tempo_event_payload [of 120 K self] by simp
  from 1 2 show ?thesis ..
qed

text \<open>The theorem at 90 beats per minute: 666666 microseconds, 0A 2C 2A.\<close>

theorem set_tempo_event_bytes_witness:
  "(4::int) \<le> 90
   \<and> set_tempo_event standard_midi_events example_track 90
       = Inr [0x00, 0xFF, 0x51, 0x03, 0x0A, 0x2C, 0x2A]
   \<and> be_value [0x0A, 0x2C, 0x2A] = 60000000 div 90
   \<and> set_tempo_event standard_midi_events example_track 120
       = Inr [0x00, 0xFF, 0x51, 0x03, 0x07, 0xA1, 0x20]"
proof -
  have e: "set_tempo_event standard_midi_events example_track 90
       = Inr [0x00, 0xFF, 0x51, 0x03, 0x0A, 0x2C, 0x2A]"
    using set_tempo_event_payload [of 90 standard_midi_events example_track]
    by (simp add: be_bytes_def upt_rec standard_midi_events_def example_track_def)
  from set_tempo_event_bytes [of 90 standard_midi_events example_track] e
  have "be_value [0x0A, 0x2C, 0x2A] = 60000000 div 90"
    and "set_tempo_event standard_midi_events example_track 120
       = Inr [0x00, 0xFF, 0x51, 0x03, 0x07, 0xA1, 0x20]"
    by (auto simp: standard_midi_events_def example_track_def)
  with e show ?thesis by simp
qed

lemma a2b_hex_odd: "odd (length s) \<Longrightarrow> a2b_hex s = Inl BinasciiError"
  by (induction s rule: a2b_hex.induct) (auto split: option.splits sum.splits)

text \<open>
  Claim C2 as stated, for every positive \<open>bpm\<close>, fails at \<open>bpm = 1\<close>: 60000000 does not
  fit in three bytes, \<^verbatim>\<open>"%06x"\<close> gives the seven digits 3938700, and
  \<^verbatim>\<open>a2b_hex\<close> raises on a string of odd length, so no event is returned.
\<close>

theorem set_tempo_event_slow_tempo_fails:
  "set_tempo_event standard_midi_events example_track 1 = Inl BinasciiError
   \<and> format_0x 6 (60000000 div 1) = ''3938700''"
proof -
  have f: "format_0x 6 60000000 = ''3938700''"
    by (simp add: format_0x_def zero_pad_def hex_digits.simps hex_char_def)
  have a: "a2b_hex ''3938700'' = Inl BinasciiError"
    by (rule a2b_hex_odd) simp
  show ?thesis
    by (simp add: set_tempo_event_def f a del: a2b_hex.simps)
qed

section \<open>Properties of the sequencer\<close>

subsection \<open>Playback\<close>
lemma example_sorted:
  "SortedDict (score example_sequencer)
     = [(0, [Start_note (example_note 48 64) 1 64]),
        (500, [End_note (example_note 48 64) 1]),
        (1000, [Control_change_event 1 VOLUME 100])]"
  by (simp add: SortedDict_def example_sequencer_def)

lemma fold_call: "fold call cs st = st\<lparr>synth := synth st @ cs\<rparr>"
  by (induction cs arbitrary: st) (simp_all add: call_def)

lemma fold_events:
  "fold (\<lambda>event st. fold call (play_event event) st) events st
     = st\<lparr>synth := synth st @ concat (map play_event events)\<rparr>"
  by (induction events arbitrary: st) (simp_all add: fold_call)

lemma fold_setup:
  "fold (\<lambda>(chan, ins) st. call (Call_set_instrument chan (number ins) (bank ins)) st) ins st
     = st\<lparr>synth := synth st @ spec_setup ins\<rparr>"
  by (induction ins arbitrary: st) (auto simp: call_def spec_setup_def)

lemma call_fields:
  "synth (call c st) = synth st @ [c]" "the_time (call c st) = the_time st"
  "self_seq (call c st) = self_seq st" "polled (call c st) = polled st"
  by (simp_all add: call_def)

lemma timeline_from_Nil: "timeline_from c [] = []"
  by (simp add: timeline_from_def)

lemma timeline_from_Cons:
  "timeline_from c ((t, evs) # items) = spec_bucket (t - c) evs @ timeline_from t items"
  by (simp add: timeline_from_def)

lemma spec_timeline_from: "spec_timeline items = timeline_from 0 items"
  by (simp add: spec_timeline_def spec_waits_def timeline_from_def)

lemma play_buckets_all:
  assumes "\<forall>k. \<not> stop_now stop_func k"
  shows "play_buckets stop_func items st
    = st\<lparr>synth := synth st @ timeline_from (the_time st) items,
         the_time := (if items = [] then the_time st else fst (last items)),
         polled := polled st + length items\<rparr>"
proof (induction items arbitrary: st)
  case Nil
  then show ?case by (simp add: timeline_from_Nil)
next
  case (Cons item items)
  obtain t evs where item: "item = (t, evs)" by (cases item)
  show ?case
    using assms
    by (simp add: item Cons.IH fold_events call_def timeline_from_Cons spec_bucket_def Let_def)
qed

lemma play_buckets_self: "self_seq (play_buckets stop_func items st) = self_seq st"
proof (induction stop_func items st rule: play_buckets.induct)
  case (1 stop_func st)
  then show ?case by simp
next
  case (2 stop_func start_time events rest st)
  show ?case
  proof (cases "stop_now stop_func (polled st)")
    case True
    then show ?thesis by simp
  next
    case False
    then show ?thesis
      using 2 by (simp add: fold_events call_def Let_def)
  qed
qed

text \<open>
  Claim C5. When the cancellation predicate never answers true (or is absent),
  \<^verbatim>\<open>play_score\<close> sets the instruments up, then goes through the timestamps in
  ascending order: before each it sleeps for the timestamp minus the cursor, in
  milliseconds, only if that wait is positive, the cursor being 0 at first and the
  previous timestamp afterwards; it makes the calls of the bucket in order; and after
  the last timestamp it sleeps for the drain delay of 2 seconds. The buckets played are
  those of the score, each once.
\<close>

theorem play_score_timeline:
  assumes "\<forall>k. \<not> stop_now stop_func k"
  shows "synth (play_score self synth0 stop_func)
           = synth0 @ spec_setup (instruments self)
               @ spec_timeline (SortedDict (score self)) @ [Call_sleep 2]
       \<and> sorted (map fst (SortedDict (score self)))
       \<and> mset (SortedDict (score self)) = mset (score self)
       \<and> the_time (play_score self synth0 stop_func)
           = (if score self = [] then 0 else fst (last (SortedDict (score self))))"
proof -
  have "SortedDict (score self) = [] \<longleftrightarrow> score self = []"
    using length_sort [of fst "score self"] unfolding SortedDict_def
    by (metis length_0_conv)
  then show ?thesis
    using assms
    by (simp add: play_score_def fold_setup play_buckets_all call_fields spec_timeline_from
        Let_def) (simp add: SortedDict_def)
qed

text \<open>
  Claim C10. \<^verbatim>\<open>play_score\<close> leaves the sequencer as it was, score and instruments,
  whether playback runs to the end or is cancelled.
\<close>

theorem play_score_frame: "self_seq (play_score self synth0 stop_func) = self"
  by (simp add: play_score_def play_buckets_self fold_setup call_fields Let_def)

text \<open>
  Claim C6, as amended. If the cancellation predicate answers false before the first
  bucket and true before the second, the synthesizer receives the instrument set-up,
  the wait and the events of the first timestamp, and then only the drain delay
  \<^verbatim>\<open>sleep(2)\<close>: no later timestamp is processed.
\<close>

theorem play_score_cancelled:
  assumes "SortedDict (score self) = (t1, ev1) # (t2, ev2) # rest"
    and "stop_func = Some f" and "\<not> f 0" and "f 1"
  shows "synth (play_score self synth0 stop_func)
    = synth0 @ spec_setup (instruments self) @ spec_bucket t1 ev1 @ [Call_sleep 2]"
proof -
  let ?st = "\<lparr>self_seq = self, synth = synth0 @ spec_setup (instruments self),
      the_time = 0, polled = 0\<rparr>"
  have "synth (play_buckets stop_func ((t1, ev1) # (t2, ev2) # rest) ?st)
      = synth0 @ spec_setup (instruments self) @ spec_bucket t1 ev1"
    using assms(2-4)
    by (simp add: fold_events call_fields stop_now_def spec_bucket_def Let_def)
  then show ?thesis
    using assms(1)
    by (simp add: play_score_def fold_setup call_fields Let_def)
qed

lemma example_timeline:
  "spec_timeline (SortedDict (score example_sequencer))
     = [Call_play_note (example_note 48 64) 1 64, Call_sleep (1 / 2),
        Call_stop_note (example_note 48 64) 1, Call_sleep (1 / 2),
        Call_control_change 1 7 100]"
  unfolding example_sorted
  by (simp add: spec_timeline_def spec_waits_def spec_bucket_def example_note_def)

text \<open>
  The theorem for a score with buckets at 500, 0 and 1000 (in this order of insertion).
\<close>

theorem play_score_timeline_witness:
  "(\<forall>k. \<not> stop_now None k)
   \<and> synth (play_score example_sequencer [] None)
       = [Call_set_instrument 1 5 0,
          Call_play_note (example_note 48 64) 1 64, Call_sleep (1 / 2),
          Call_stop_note (example_note 48 64) 1, Call_sleep (1 / 2),
          Call_control_change 1 7 100, Call_sleep 2]
   \<and> the_time (play_score example_sequencer [] None) = 1000"
proof -
  have n: "\<forall>k. \<not> stop_now None k" by (simp add: stop_now_def)
  have i: "spec_setup (instruments example_sequencer) = [Call_set_instrument 1 5 0]"
    by (simp add: spec_setup_def example_sequencer_def)
  have l: "score example_sequencer \<noteq> []" by (simp add: example_sequencer_def)
  from play_score_timeline [OF n, of example_sequencer "[]"] n l
  show ?thesis
    unfolding example_timeline i by (simp add: example_sorted)
qed

text \<open>
  The theorem for a playback cancelled before the second bucket.
\<close>

theorem play_score_frame_witness:
  "self_seq (play_score example_sequencer [] (Some (\<lambda>k. 1 \<le> k))) = example_sequencer"
  using play_score_frame [of example_sequencer "[]" "Some (\<lambda>k. 1 \<le> k)"] .

text \<open>
  The theorem for the score with buckets at 0, 500 and 1000.
\<close>

theorem play_score_cancelled_witness:
  "SortedDict (score example_sequencer)
     = (0, [Start_note (example_note 48 64) 1 64])
       # (500, [End_note (example_note 48 64) 1]) # [(1000, [Control_change_event 1 VOLUME 100])]
   \<and> \<not> (\<lambda>k. 1 \<le> k) (0::nat) \<and> (\<lambda>k. 1 \<le> k) (1::nat)
   \<and> synth (play_score example_sequencer [] (Some (\<lambda>k. 1 \<le> k)))
       = [Call_set_instrument 1 5 0, Call_play_note (example_note 48 64) 1 64, Call_sleep 2]"
proof -
  have i: "spec_setup (instruments example_sequencer) = [Call_set_instrument 1 5 0]"
    by (simp add: spec_setup_def example_sequencer_def)
  have b: "spec_bucket 0 [Start_note (example_note 48 64) 1 64]
      = [Call_play_note (example_note 48 64) 1 64]"
    by (simp add: spec_bucket_def example_note_def)
  from play_score_cancelled [of example_sequencer 0 _ 500 _ _ "Some (\<lambda>k. 1 \<le> k)"
      "\<lambda>k. 1 \<le> k" "[]", OF example_sorted]
  show ?thesis
    unfolding i b by (simp add: example_sorted)
qed

text \<open>
  Claim C6 as stated fails: after the events of the first timestamp the synthesizer
  still receives a call, \<^verbatim>\<open>sleep(2)\<close>, because \<^verbatim>\<open>break\<close> leaves the loop and
  the drain delay follows the loop.
\<close>

theorem play_score_cancelled_still_sleeps:
  "synth (play_score
      \<lparr>score = [(0, [Start_note (example_note 48 64) 1 64]),
                (500, [End_note (example_note 48 64) 1])],
       instruments = []\<rparr> [] (Some (\<lambda>k. 1 \<le> k)))
   = [Call_play_note (example_note 48 64) 1 64, Call_sleep 2]"
  by (simp add: play_score_def SortedDict_def fold_events call_fields stop_now_def
      example_note_def Let_def)

subsection \<open>Recording into the score\<close>

lemma map_of_setdefault_append_same:
  "map_of (setdefault_append d k x) k
     = Some ((case map_of d k of None \<Rightarrow> [] | Some xs \<Rightarrow> xs) @ [x])"
  by (induction d) auto

lemma map_of_setdefault_append_other:
  "k' \<noteq> k \<Longrightarrow> map_of (setdefault_append d k x) k' = map_of d k'"
  by (induction d) auto

lemma keys_setdefault_append:
  "map fst (setdefault_append d k x)
     = (if k \<in> set (map fst d) then map fst d else map fst d @ [k])"
  by (induction d) force+

subsection \<open>Rounding to doubles\<close>

lemma pow2_powr: "pow2 k = 2 powr (of_int k)"
  by (simp add: pow2_def powr_int)

lemma double_ulp_eq:
  assumes "pow2 e \<le> \<bar>x\<bar>" "\<bar>x\<bar> < pow2 (e + 1)" "- 1022 \<le> e"
  shows "double_ulp x = pow2 (e - 52)"
proof -
  have "0 < pow2 e" by (simp add: pow2_def)
  with assms(1) have x: "0 < \<bar>x\<bar>" by linarith
  have "\<lfloor>log 2 \<bar>x\<bar>\<rfloor> = e"
    using assms(1,2) x by (simp add: floor_log_eq_powr_iff pow2_powr)
  with assms(3) show ?thesis by (simp add: double_ulp_def)
qed

lemma round_double_eval:
  assumes "pow2 e \<le> \<bar>x\<bar>" "\<bar>x\<bar> < pow2 (e + 1)" "- 1022 \<le> e"
    and "py_round (x / pow2 (e - 52)) = m"
  shows "round_double x = pow2 (e - 52) * of_int m"
proof -
  have "0 < pow2 e" by (simp add: pow2_def)
  with assms(1) have "x \<noteq> 0" by auto
  then show ?thesis
    using assms(4) by (simp add: round_double_def double_ulp_eq [OF assms(1-3)])
qed

lemma time_in_ms_eval:
  assumes "b \<noteq> 0" and "round_double (bt / b) = q" and "\<not> double_overflow q"
    and "round_double (q * 60000) = p" and "\<not> double_overflow p" and "py_round p = t"
  shows "time_in_ms bt b = Inr t"
  using assms by (simp add: time_in_ms_def Let_def)

text \<open>
  Beat \<open>-1\<close> at 120 beats per minute: the quotient is rounded to
  \<open>- 4803839602528529 / 2 ^ 59\<close>, the product to \<open>-500\<close>.
\<close>

lemma round_double_minus_120: "round_double (- 1 / 120) = - (4803839602528529 / 2 ^ 59)"
  using round_double_eval [of "- 7" "- 1 / 120" "- 4803839602528529"]
  by (simp add: pow2_def py_round_def Let_def)

lemma round_double_minus_500:
  "round_double (- (4803839602528529 / 2 ^ 59) * 60000) = - 500"
  using round_double_eval [of 8 "- (4803839602528529 / 2 ^ 59) * 60000" "- 8796093022208000"]
  by (simp add: pow2_def py_round_def Let_def)

lemma time_in_ms_minus_1_120: "time_in_ms (- 1) 120 = Inr (- 500)"
proof (rule time_in_ms_eval)
  show "(120::real) \<noteq> 0" by simp
  show "round_double (- 1 / 120) = - (4803839602528529 / 2 ^ 59)"
    by (rule round_double_minus_120)
  show "\<not> double_overflow (- (4803839602528529 / 2 ^ 59))"
    by (simp add: double_overflow_def)
  show "round_double (- (4803839602528529 / 2 ^ 59) * 60000) = - 500"
    by (rule round_double_minus_500)
  show "\<not> double_overflow (- 500)" by (simp add: double_overflow_def)
  show "py_round (- 500) = - 500" by (simp add: py_round_def)
qed

text \<open>
  Beat \<open>27 / 16\<close> at 100 beats per minute: the exact product is 1012.5, which would be
  rounded to 1012; the quotient is rounded up to \<open>4863887597560136 / 2 ^ 58\<close>, the
  product to \<open>8906044184985601 / 2 ^ 43\<close>, just above 1012.5, and the time is 1013.
\<close>

lemma round_double_27_1600: "round_double (27 / 16 / 100) = 4863887597560136 / 2 ^ 58"
  using round_double_eval [of "- 6" "27 / 16 / 100" "4863887597560136"]
  by (simp add: pow2_def py_round_def Let_def)

lemma round_double_1012_5:
  "round_double (4863887597560136 / 2 ^ 58 * 60000) = 8906044184985601 / 2 ^ 43"
  using round_double_eval [of 9 "4863887597560136 / 2 ^ 58 * 60000" "8906044184985601"]
  by (simp add: pow2_def py_round_def Let_def)

lemma time_in_ms_27_16_100: "time_in_ms (27 / 16) 100 = Inr 1013"
proof (rule time_in_ms_eval)
  show "(100::real) \<noteq> 0" by simp
  show "round_double (27 / 16 / 100) = 4863887597560136 / 2 ^ 58"
    by (rule round_double_27_1600)
  show "\<not> double_overflow (4863887597560136 / 2 ^ 58)"
    by (simp add: double_overflow_def)
  show "round_double (4863887597560136 / 2 ^ 58 * 60000) = 8906044184985601 / 2 ^ 43"
    by (rule round_double_1012_5)
  show "\<not> double_overflow (8906044184985601 / 2 ^ 43)"
    by (simp add: double_overflow_def)
  show "py_round (8906044184985601 / 2 ^ 43) = 1013"
    by (simp add: py_round_def Let_def)
qed

text \<open>The time is computed unless the tempo is zero or a double overflows.\<close>

lemma time_in_ms_cases:
  "time_in_ms bt b = Inl ZeroDivisionError \<and> b = 0
   \<or> time_in_ms bt b = Inl OverflowError \<and> b \<noteq> 0
   \<or> (\<exists>t. time_in_ms bt b = Inr t) \<and> b \<noteq> 0"
  by (simp add: time_in_ms_def Let_def)

lemma put_into_score_raises:
  "time_in_ms (beat ev) b = Inl e \<Longrightarrow> put_into_score ev sc chan b = Inl e"
  by (simp add: put_into_score_def)

subsection \<open>Recording a control change\<close>

text \<open>
  Claim C9, as amended. \<^verbatim>\<open>put_into_score\<close> rejects no timestamp: whenever the time
  in milliseconds \<open>t\<close> of the event is computed, negative or not, the event is appended
  to the bucket at \<open>t\<close>, after the events already there; the bucket is created after
  the existing ones if \<open>t\<close> is a new key; every other bucket and the order of the
  buckets stay as they were.
\<close>

theorem put_into_score_appends:
  assumes "time_in_ms (beat ev) b = Inr t"
  shows "\<exists>sc'. put_into_score ev sc chan b = Inr sc'
      \<and> (let e = Control_change_event chan (control ev) (cc_value ev)
          in map_of sc' t = Some ((case map_of sc t of None \<Rightarrow> [] | Some es \<Rightarrow> es) @ [e])
             \<and> (\<forall>k. k \<noteq> t \<longrightarrow> map_of sc' k = map_of sc k)
             \<and> map fst sc' = (if t \<in> set (map fst sc) then map fst sc else map fst sc @ [t]))"
  using assms
  by (simp add: put_into_score_def Let_def map_of_setdefault_append_same
      map_of_setdefault_append_other keys_setdefault_append)

text \<open>
  Claim C9 as stated fails: an event at beat \<open>-1\<close> and 120 beats per minute is recorded
  into the empty score at the timestamp \<open>-500\<close>.
\<close>

theorem put_into_score_negative_time:
  "put_into_score \<lparr>beat = - 1, control = VOLUME, cc_value = 100\<rparr> [] 1 120
     = Inr [(- 500, [Control_change_event 1 VOLUME 100])]"
  by (simp add: put_into_score_def time_in_ms_minus_1_120)

text \<open>
  The theorem for an event at beat \<open>27 / 16\<close> and 100 beats per minute, whose time is
  1013 milliseconds, recorded into a score that has this bucket and into one that
  has not.
\<close>

theorem put_into_score_appends_witness:
  "time_in_ms (beat \<lparr>beat = 27 / 16, control = VOLUME, cc_value = 100\<rparr>) 100 = Inr 1013
   \<and> put_into_score \<lparr>beat = 27 / 16, control = VOLUME, cc_value = 100\<rparr>
        [(0, [Other_func ''a'']), (1013, [Other_func ''b''])] 1 100
       = Inr [(0, [Other_func ''a'']),
              (1013, [Other_func ''b'', Control_change_event 1 VOLUME 100])]
   \<and> put_into_score \<lparr>beat = 27 / 16, control = VOLUME, cc_value = 100\<rparr>
        [(0, [Other_func ''a'']), (1012, [Other_func ''b''])] 1 100
       = Inr [(0, [Other_func ''a'']), (1012, [Other_func ''b'']),
              (1013, [Control_change_event 1 VOLUME 100])]"
proof -
  let ?ev = "\<lparr>beat = 27 / 16, control = VOLUME, cc_value = 100\<rparr>"
  have t: "time_in_ms (beat ?ev) 100 = Inr 1013"
    by (simp add: time_in_ms_27_16_100)
  have 1: "put_into_score ?ev [(0, [Other_func ''a'']), (1013, [Other_func ''b''])] 1 100
       = Inr [(0, [Other_func ''a'']),
              (1013, [Other_func ''b'', Control_change_event 1 VOLUME 100])]"
    by (simp add: put_into_score_def time_in_ms_27_16_100)
  have 2: "put_into_score ?ev [(0, [Other_func ''a'']), (1012, [Other_func ''b''])] 1 100
       = Inr [(0, [Other_func ''a'']), (1012, [Other_func ''b'']),
              (1013, [Control_change_event 1 VOLUME 100])]"
    by (simp add: put_into_score_def time_in_ms_27_16_100)
  from put_into_score_appends [OF t, of "[(0, [Other_func ''a'']), (1013, [Other_func ''b''])]" 1]
    t 1 2
  show ?thesis by simp
qed

subsection \<open>Keys as strings\<close>

lemma dec_value_dec_char: "d < 10 \<Longrightarrow> dec_value (dec_char d) = Some d"
proof -
  have "list_all (\<lambda>d. dec_value (dec_char d) = Some d) [0..<10]"
    by (simp add: upt_rec dec_value_def dec_char_def)
  then show "d < 10 \<Longrightarrow> dec_value (dec_char d) = Some d"
    by (simp add: list_all_iff)
qed

lemma dec_char_no_sign: "d < 10 \<Longrightarrow> dec_char d \<noteq> CHR ''-'' \<and> dec_char d \<noteq> CHR ''+''"
proof -
  have "list_all (\<lambda>d. dec_char d \<noteq> CHR ''-'' \<and> dec_char d \<noteq> CHR ''+'') [0..<10]"
    by (simp add: upt_rec dec_char_def)
  then show "d < 10 \<Longrightarrow> dec_char d \<noteq> CHR ''-'' \<and> dec_char d \<noteq> CHR ''+''"
    by (simp add: list_all_iff)
qed

lemma parse_digits_append:
  "parse_digits acc (xs @ ys)
     = (case parse_digits acc xs of None \<Rightarrow> None | Some a \<Rightarrow> parse_digits a ys)"
  by (induction xs arbitrary: acc) (auto split: option.splits)

lemma parse_dec_digits: "parse_digits 0 (dec_digits n) = Some n"
proof (induction n rule: dec_digits.induct)
  case (1 n)
  show ?case
  proof (cases "n < 10")
    case True
    then show ?thesis by (simp add: dec_digits.simps [of n] dec_value_dec_char)
  next
    case False
    with 1 have "parse_digits 0 (dec_digits (n div 10)) = Some (n div 10)" by simp
    with False show ?thesis
      by (simp add: dec_digits.simps [of n] parse_digits_append dec_value_dec_char)
  qed
qed

lemma dec_digits_first:
  "\<exists>c cs. dec_digits n = c # cs \<and> c \<noteq> CHR ''-'' \<and> c \<noteq> CHR ''+''"
proof (induction n rule: dec_digits.induct)
  case (1 n)
  show ?case
  proof (cases "n < 10")
    case True
    then show ?thesis by (simp add: dec_digits.simps [of n] dec_char_no_sign)
  next
    case False
    with 1 obtain c cs where "dec_digits (n div 10) = c # cs" "c \<noteq> CHR ''-''" "c \<noteq> CHR ''+''"
      by auto
    with False show ?thesis by (simp add: dec_digits.simps [of n])
  qed
qed

lemma py_int_of_str_py_str: "py_int_of_str (py_str k) = Inr k"
proof (cases "k < 0")
  case True
  obtain c cs where "dec_digits (nat (- k)) = c # cs"
    using dec_digits_first [of "nat (- k)"] by auto
  then have "parse_unsigned (dec_digits (nat (- k))) = Some (nat (- k))"
    using parse_dec_digits [of "nat (- k)"] by (simp add: parse_unsigned_def)
  with True show ?thesis by (simp add: py_int_of_str_def py_str_def)
next
  case False
  obtain c cs where c: "dec_digits (nat k) = c # cs" "c \<noteq> CHR ''-''" "c \<noteq> CHR ''+''"
    using dec_digits_first [of "nat k"] by auto
  then have "parse_unsigned (c # cs) = Some (nat k)"
    using parse_dec_digits [of "nat k"] by (simp add: parse_unsigned_def)
  with False c show ?thesis by (simp add: py_int_of_str_def py_str_def)
qed

subsection \<open>Saving and loading\<close>

lemma dict_setitem_new: "k \<notin> set (map fst d) \<Longrightarrow> dict_setitem d k v = d @ [(k, v)]"
  by (induction d) auto

lemma int_keys_dump:
  "distinct (map fst sc) \<Longrightarrow> set (map fst sc) \<inter> set (map fst d) = {} \<Longrightarrow>
   int_keys (map (\<lambda>(k, v). (py_str k, v)) sc) d = Inr (d @ sc)"
proof (induction sc arbitrary: d)
  case Nil
  then show ?case by simp
next
  case (Cons item sc)
  obtain k v where item: "item = (k, v)" by (cases item)
  from Cons.prems item have k: "k \<notin> set (map fst d)" by auto
  from Cons.prems item have "distinct (map fst sc)"
    and "set (map fst sc) \<inter> set (map fst (d @ [(k, v)])) = {}"
    by auto
  from Cons.IH [OF this] k show ?case
    by (simp add: item py_int_of_str_py_str dict_setitem_new)
qed

lemma dict_ok_SortedDict: "dict_ok d \<Longrightarrow> dict_ok (SortedDict d)"
proof -
  assume "dict_ok d"
  moreover have "mset (map fst (SortedDict d)) = mset (map fst d)"
    by (simp add: SortedDict_def)
  ultimately show ?thesis
    unfolding dict_ok_def by (metis mset_eq_imp_distinct_iff)
qed

lemma map_of_SortedDict: "dict_ok d \<Longrightarrow> map_of (SortedDict d) = map_of d"
proof -
  assume d: "dict_ok d"
  have "set (SortedDict d) = set d" by (simp add: SortedDict_def)
  with d dict_ok_SortedDict [OF d] show ?thesis
    by (simp add: dict_ok_def map_of_inject_set)
qed

text \<open>
  Claim C8. Loading what \<^verbatim>\<open>save_tracks\<close> wrote gives the instruments back and a
  score with the same timestamps, as integers again, and under each timestamp the same
  events in the same order; the buckets come back in ascending order of timestamp.
\<close>

theorem save_load_roundtrip:
  assumes "dict_ok (score self)"
  shows "load_tracks other (save_tracks self)
           = (None, other\<lparr>instruments := instruments self,
                score := SortedDict (score self)\<rparr>)
       \<and> map_of (SortedDict (score self)) = map_of (score self)
       \<and> dict_ok (SortedDict (score self))"
proof -
  have "int_keys (map (\<lambda>(k, v). (py_str k, v)) (SortedDict (score self))) []
      = Inr ([] @ SortedDict (score self))"
    using dict_ok_SortedDict [OF assms] by (intro int_keys_dump) (simp_all add: dict_ok_def)
  then show ?thesis
    using map_of_SortedDict [OF assms] dict_ok_SortedDict [OF assms]
    by (simp add: load_tracks_def save_tracks_def mingus_json_dump_def mingus_json_load_def
        Let_def)
qed

text \<open>
  The theorem for the score with buckets at 500, 0 and 1000.
\<close>

theorem save_load_roundtrip_witness:
  "dict_ok (score example_sequencer)
   \<and> snap_score (save_tracks example_sequencer)
       = [(''0'', [Start_note (example_note 48 64) 1 64]),
          (''500'', [End_note (example_note 48 64) 1]),
          (''1000'', [Control_change_event 1 VOLUME 100])]
   \<and> load_tracks \<lparr>score = [], instruments = []\<rparr> (save_tracks example_sequencer)
       = (None,
          \<lparr>score = [(0, [Start_note (example_note 48 64) 1 64]),
                    (500, [End_note (example_note 48 64) 1]),
                    (1000, [Control_change_event 1 VOLUME 100])],
           instruments = [(1, \<lparr>number = 5, bank = 0\<rparr>)]\<rparr>)
   \<and> map_of (SortedDict (score example_sequencer)) = map_of (score example_sequencer)"
proof -
  have d: "dict_ok (score example_sequencer)"
    by (simp add: dict_ok_def example_sequencer_def)
  have s: "snap_score (save_tracks example_sequencer)
       = [(''0'', [Start_note (example_note 48 64) 1 64]),
          (''500'', [End_note (example_note 48 64) 1]),
          (''1000'', [Control_change_event 1 VOLUME 100])]"
    unfolding save_tracks_def Let_def example_sorted
    by (simp add: mingus_json_dump_def py_str_def dec_digits.simps dec_char_def)
  from save_load_roundtrip [OF d, of "\<lparr>score = [], instruments = []\<rparr>"] d s
  show ?thesis
    unfolding example_sorted by (simp add: example_sequencer_def)
qed

end
